theory Spec2Isabelle
  imports Complex_Main
begin

section \<open>Data model\<close>

text \<open>
  Grapher keeps its scene in global variables and in JavaScript objects that are shared by
  reference: an edge holds its two vertices, the selection holds a vertex or an edge, and
  the handlers compare objects with \<open>==\<close> (identity). The embedding therefore uses an
  explicit store: a reference is a natural number, the heap maps references to objects,
  and \<open>new\<close> takes the next unused reference. Objects are never freed (JavaScript
  collects only what nothing refers to).

  JavaScript numbers are modelled as real numbers: rounding of IEEE doubles is not
  modelled. Where the source divides, the division by zero is written out with the
  values IEEE gives (\<open>NaN\<close>, \<open>Infinity\<close>), since HOL's \<open>a / 0 = 0\<close> is not what the
  program computes. Strings are lists of UTF-16 code units.
\<close>

type_synonym ref = nat
type_synonym jsstring = "nat list"
type_synonym mouse = "real \<times> real"

text \<open>\<open>function Vertex(x, y)\<close> of Vertex.js: the fields of a vertex object.\<close>

record vertex =
  x :: real
  y :: real
  radius :: real
  mouseOffsetX :: real
  mouseOffsetY :: real
  label :: jsstring

text \<open>\<open>function Edge(v1, v2)\<close> and \<open>function DirEdge(v1, v2)\<close> of Edge.js have the same
  fields; the field \<open>text\<close> of the source is \<open>label\<close> (vertex) and \<open>elabel\<close> (edge) here.\<close>

record edge =
  v1 :: ref
  v2 :: ref
  elabel :: jsstring

datatype obj =
    Vertex vertex
  | Edge edge
  | DirEdge edge
  | TempEdge ref mouse
  | TempDirEdge ref mouse

datatype error = ReferenceError | TypeError | RangeError

text \<open>The result of an arithmetic expression that may divide by zero.\<close>

datatype jsnum = Num real | NaN | PosInfinity | NegInfinity

text \<open>The global variables of grapher.js, the heap and the allocation counter.\<close>

record state =
  selectedObject :: "ref option"
  currentEdge :: "ref option"
  sourceMouse :: "mouse option"
  movingObject :: bool
  vertices :: "ref list"
  edges :: "ref list"
  lastKey :: "nat option"
  shift :: bool
  ctrl :: bool
  mouseDown :: bool
  heap :: "ref \<Rightarrow> obj option"
  nextRef :: ref

definition VERTEX_RADIUS :: real where "VERTEX_RADIUS = 30"
definition VERTEX_PADDING :: real where "VERTEX_PADDING = 10"
definition SNAP_MARGIN :: real where "SNAP_MARGIN = 10"
definition EDGE_MARGIN :: real where "EDGE_MARGIN = 6"

definition BACKSPACE :: nat where "BACKSPACE = 8"
definition SHIFT :: nat where "SHIFT = 16"
definition CTRL :: nat where "CTRL = 17"
definition DELETE :: nat where "DELETE = 46"

text \<open>\<open>new C(...)\<close>: store the object at the next reference.\<close>

definition new :: "obj \<Rightarrow> state \<Rightarrow> ref \<times> state" where
  "new ob s = (nextRef s, s\<lparr>heap := (heap s)(nextRef s \<mapsto> ob), nextRef := Suc (nextRef s)\<rparr>)"

section \<open>Strings and the label formatters\<close>

text \<open>Code units used below: \<open>' '\<close> 32, \<open>'-'\<close> 45, \<open>'.'\<close> 46, \<open>'0'\<close> 48, \<open>'9'\<close> 57,
  \<open>'_'\<close> 95, \<open>'{'\<close> 123, \<open>'}'\<close> 125.\<close>

definition str :: "string \<Rightarrow> jsstring" where
  "str cs = map of_char cs"

definition fromCharCode :: "nat \<Rightarrow> jsstring" where
  "fromCharCode n = [n mod 65536]"

definition isDigit :: "nat \<Rightarrow> bool" where
  "isDigit c = (48 \<le> c \<and> c \<le> 57)"

text \<open>\<open>String.prototype.substr(start, length)\<close>.\<close>

definition substr :: "jsstring \<Rightarrow> int \<Rightarrow> int \<Rightarrow> jsstring" where
  "substr s start len =
     (let size = int (length s);
          st = (if start < 0 then max (size + start) 0 else min start size);
          l = min (max len 0) (size - st)
      in take (nat l) (drop (nat st) s))"

text \<open>The regular expression \<open>_[0-9]+_\<close> tried at the start of a string: the matched
  text. The digits are taken greedily; giving one back cannot help, since the code unit
  after a shorter run is a digit and not an underscore.\<close>

definition match_here :: "jsstring \<Rightarrow> jsstring option" where
  "match_here s =
     (case s of
        [] \<Rightarrow> None
      | c # cs \<Rightarrow>
          if c = 95 then
            (let ds = takeWhile isDigit cs in
             case dropWhile isDigit cs of
               [] \<Rightarrow> None
             | d # _ \<Rightarrow> if ds \<noteq> [] \<and> d = 95 then Some (c # ds @ [d]) else None)
          else None)"

text \<open>All matches of the global expression, left to right, each search starting where
  the last match ended.\<close>

function match_all :: "jsstring \<Rightarrow> jsstring list" where
  "match_all [] = []"
| "match_all (c # cs) =
     (case match_here (c # cs) of
        Some m \<Rightarrow> m # match_all (drop (length m) (c # cs))
      | None \<Rightarrow> match_all cs)"
  by pat_completeness auto
termination
  by (relation "measure length")
     (auto simp: match_here_def Let_def split: if_splits list.splits)

text \<open>\<open>text.match(new RegExp('_[0-9]+_', 'g'))\<close>: \<open>null\<close> when nothing matches.\<close>

definition match_g :: "jsstring \<Rightarrow> jsstring list option" where
  "match_g s = (case match_all s of [] \<Rightarrow> None | m # ms \<Rightarrow> Some (m # ms))"

text \<open>\<open>s.replace(new RegExp(p, 'g'), r)\<close> for a pattern \<open>p\<close> without metacharacters (here
  underscores and digits) and a replacement without \<open>$\<close>: every occurrence of \<open>p\<close>, left
  to right and without overlap, becomes \<open>r\<close>.\<close>

function replace_g :: "jsstring \<Rightarrow> jsstring \<Rightarrow> jsstring \<Rightarrow> jsstring" where
  "replace_g p r [] = []"
| "replace_g p r (c # cs) =
     (if p \<noteq> [] \<and> take (length p) (c # cs) = p
      then r @ replace_g p r (drop (length p) (c # cs))
      else c # replace_g p r cs)"
  by pat_completeness auto
termination
  by (relation "measure (\<lambda>(p, r, s). length s)") auto

text \<open>The inner loop of \<open>makeSubscripts\<close>: \<open>for (var j = 0; j < 10; j++)\<close> replaces the
  digit \<open>j\<close> by the character \<open>8320 + j\<close>.\<close>

fun digits_loop :: "nat list \<Rightarrow> jsstring \<Rightarrow> jsstring" where
  "digits_loop [] r = r"
| "digits_loop (j # js) r = digits_loop js (replace_g [48 + j] (fromCharCode (8320 + j)) r)"

text \<open>The outer loop of \<open>makeSubscripts\<close> over the matches found in the original text;
  each round replaces, in the text as it is by then, every occurrence of the match.\<close>

fun makeSubscripts_loop :: "jsstring list \<Rightarrow> jsstring \<Rightarrow> jsstring" where
  "makeSubscripts_loop [] txt = txt"
| "makeSubscripts_loop (m # ms) txt =
     makeSubscripts_loop ms (replace_g m (digits_loop [0..<10] (replace_g [95] [] m)) txt)"

definition makeSubscripts :: "jsstring \<Rightarrow> jsstring" where
  "makeSubscripts txt =
     (case match_g txt of None \<Rightarrow> txt | Some subscripts \<Rightarrow> makeSubscripts_loop subscripts txt)"

text \<open>\<open>LaTeXDrawer.makeLaTeXSubscripts\<close>: the replacement is \<open>'_{'\<close>, the match without its
  underscores, \<open>'}'\<close>.\<close>

fun makeLaTeXSubscripts_loop :: "jsstring list \<Rightarrow> jsstring \<Rightarrow> jsstring" where
  "makeLaTeXSubscripts_loop [] txt = txt"
| "makeLaTeXSubscripts_loop (m # ms) txt =
     makeLaTeXSubscripts_loop ms (replace_g m ([95, 123] @ replace_g [95] [] m @ [125]) txt)"

definition makeLaTeXSubscripts :: "jsstring \<Rightarrow> jsstring" where
  "makeLaTeXSubscripts txt =
     (case match_g txt of None \<Rightarrow> txt | Some subscripts \<Rightarrow> makeLaTeXSubscripts_loop subscripts txt)"

section \<open>Vertex.js\<close>

text \<open>\<open>Vertex.prototype.draw\<close>, its effect on the vertex: the radius is set from the width
  of the label as the surface measures it. \<open>measureText\<close> belongs to the browser and is a
  parameter. The circle and the label it paints are not part of the scene.\<close>

definition Vertex_draw :: "(jsstring \<Rightarrow> real) \<Rightarrow> vertex \<Rightarrow> vertex" where
  "Vertex_draw measureText v =
     (let textWithoutSubscripts = makeSubscripts (label v);
          width = measureText textWithoutSubscripts
      in if width < 2 * VERTEX_RADIUS - VERTEX_RADIUS / 3
         then v\<lparr>radius := VERTEX_RADIUS\<rparr>
         else v\<lparr>radius := width / 2 + VERTEX_PADDING\<rparr>)"

definition Vertex_contains :: "vertex \<Rightarrow> real \<Rightarrow> real \<Rightarrow> bool" where
  "Vertex_contains v mx my =
     (let dx = mx - x v; dy = my - y v
      in dx * dx + dy * dy \<le> radius v * radius v)"

text \<open>JavaScript's \<open>a / b\<close> on finite numbers, and \<open>a + q\<close> for a finite \<open>a\<close>.\<close>

definition js_div :: "real \<Rightarrow> real \<Rightarrow> jsnum" where
  "js_div a b =
     (if b \<noteq> 0 then Num (a / b)
      else if a = 0 then NaN
      else if a > 0 then PosInfinity
      else NegInfinity)"

definition js_add :: "real \<Rightarrow> jsnum \<Rightarrow> jsnum" where
  "js_add a q = (case q of Num b \<Rightarrow> Num (a + b) | other \<Rightarrow> other)"

text \<open>\<open>Vertex.prototype.nearestCirclePoint\<close>: \<open>this.x + this.radius * dx / dist\<close> is
  \<open>this.x + ((this.radius * dx) / dist)\<close>. There is no test of \<open>dist\<close>.\<close>

definition nearestCirclePoint :: "vertex \<Rightarrow> real \<Rightarrow> real \<Rightarrow> jsnum \<times> jsnum" where
  "nearestCirclePoint v tx ty =
     (let dx = tx - x v;
          dy = ty - y v;
          dist = sqrt (dx * dx + dy * dy)
      in (js_add (x v) (js_div (radius v * dx) dist),
          js_add (y v) (js_div (radius v * dy) dist)))"

definition setStartPoint :: "vertex \<Rightarrow> real \<Rightarrow> real \<Rightarrow> vertex" where
  "setStartPoint v mx my = v\<lparr>mouseOffsetX := x v - mx, mouseOffsetY := y v - my\<rparr>"

definition setAnchorPoint :: "vertex \<Rightarrow> real \<Rightarrow> real \<Rightarrow> vertex" where
  "setAnchorPoint v mx my = v\<lparr>x := mx + mouseOffsetX v, y := my + mouseOffsetY v\<rparr>"

section \<open>The numeric formatter of the markup export\<close>

text \<open>The decimal digits of a natural number.\<close>

fun digits_of :: "nat \<Rightarrow> jsstring" where
  "digits_of n = (if n < 10 then [48 + n] else digits_of (n div 10) @ [48 + n mod 10])"

declare digits_of.simps [simp del]

text \<open>\<open>Number.prototype.toFixed(f)\<close> is part of the language, not of the repository; it is
  written after ECMA-262: a \<open>RangeError\<close> for more than 100 digits; the sign; for
  \<open>x \<ge> 10^21\<close> the general number-to-string conversion (a parameter here); otherwise the
  integer \<open>n\<close> nearest to \<open>x * 10^f\<close> (the larger one of two), its digits padded with
  zeros to \<open>f + 1\<close> places, and a point before the last \<open>f\<close> digits when \<open>f \<noteq> 0\<close>.\<close>

definition toFixed_int :: "real \<Rightarrow> nat \<Rightarrow> jsstring" where
  "toFixed_int a f =
     (let n = nat \<lfloor>a * 10 ^ f + 1 / 2\<rfloor>;
          m = digits_of n
      in if length m \<le> f then replicate (f + 1 - length m) 48 @ m else m)"

definition toFixed :: "(real \<Rightarrow> jsstring) \<Rightarrow> real \<Rightarrow> nat \<Rightarrow> error + jsstring" where
  "toFixed toString number f =
     (if f > 100 then Inl RangeError
      else
        let s = (if number < 0 then [45] else []);
            a = \<bar>number\<bar>
        in if a \<ge> 10 ^ 21 then Inr (s @ toString a)
           else
             let m = toFixed_int a f;
                 k = length m
             in if f \<noteq> 0 then Inr (s @ take (k - f) m @ [46] @ drop (k - f) m)
                else Inr (s @ m))"

text \<open>\<open>s.replace(/0+$/, '')\<close>: the leftmost place from which only zeros follow up to the
  end is where the expression matches; the match is removed.\<close>

fun replace_zeros_end :: "jsstring \<Rightarrow> jsstring" where
  "replace_zeros_end [] = []"
| "replace_zeros_end (c # cs) =
     (if c = 48 \<and> list_all (\<lambda>d. d = 48) cs then [] else c # replace_zeros_end cs)"

text \<open>\<open>s.replace(/\.$/, '')\<close>.\<close>

fun replace_dot_end :: "jsstring \<Rightarrow> jsstring" where
  "replace_dot_end [] = []"
| "replace_dot_end (c # cs) = (if c = 46 \<and> cs = [] then [] else c # replace_dot_end cs)"

text \<open>\<open>function fixed(number, digits)\<close> of grapher.js.\<close>

definition fixed :: "(real \<Rightarrow> jsstring) \<Rightarrow> real \<Rightarrow> nat \<Rightarrow> error + jsstring" where
  "fixed toString number digits =
     (case toFixed toString number digits of
        Inl e \<Rightarrow> Inl e
      | Inr s \<Rightarrow> Inr (replace_dot_end (replace_zeros_end s)))"

text \<open>What the specification says of \<open>fixed\<close>, for a rendering with integer part \<open>ip\<close>
  and fractional digits \<open>fp\<close>: the trailing zeros of the fraction go, and the point goes
  with them when no fractional digit is left.\<close>

definition strip_fraction :: "jsstring \<Rightarrow> jsstring \<Rightarrow> jsstring" where
  "strip_fraction ip fp =
     (let fp' = rev (dropWhile (\<lambda>c. c = 48) (rev fp))
      in if fp' = [] then ip else ip @ [46] @ fp')"

section \<open>Edge.js and hit testing\<close>

text \<open>Reading the properties \<open>v1\<close>, \<open>v2\<close> of an object; \<open>None\<close> is \<open>undefined\<close>.\<close>

definition v1_of :: "(ref \<Rightarrow> obj option) \<Rightarrow> ref \<Rightarrow> ref option" where
  "v1_of h r = (case h r of Some (Edge e) \<Rightarrow> Some (v1 e) | Some (DirEdge e) \<Rightarrow> Some (v1 e) | _ \<Rightarrow> None)"

definition v2_of :: "(ref \<Rightarrow> obj option) \<Rightarrow> ref \<Rightarrow> ref option" where
  "v2_of h r = (case h r of Some (Edge e) \<Rightarrow> Some (v2 e) | Some (DirEdge e) \<Rightarrow> Some (v2 e) | _ \<Rightarrow> None)"

definition is_Vertex :: "obj option \<Rightarrow> bool" where
  "is_Vertex ob = (case ob of Some (Vertex _) \<Rightarrow> True | _ \<Rightarrow> False)"

definition is_Edge :: "obj option \<Rightarrow> bool" where
  "is_Edge ob = (case ob of Some (Edge _) \<Rightarrow> True | Some (DirEdge _) \<Rightarrow> True | _ \<Rightarrow> False)"

text \<open>\<open>Edge.prototype.contains\<close> and \<open>DirEdge.prototype.contains\<close> (the same body). With
  both ends at one place \<open>length\<close> is zero, \<open>percent\<close> is \<open>0 / 0 = NaN\<close> and the comparison
  \<open>percent > 0\<close> is false. The handlers build an edge from two objects that they have
  tested with \<open>instanceof Vertex\<close>; the last case of the definition is for a heap that no
  handler builds.\<close>

definition Edge_contains :: "(ref \<Rightarrow> obj option) \<Rightarrow> edge \<Rightarrow> real \<Rightarrow> real \<Rightarrow> bool" where
  "Edge_contains h e mx my =
     (case (h (v1 e), h (v2 e)) of
        (Some (Vertex a), Some (Vertex b)) \<Rightarrow>
          (let dx = x b - x a;
               dy = y b - y a;
               len = sqrt (dx * dx + dy * dy)
           in if len = 0 then False
              else
                let percent = (dx * (mx - x a) + dy * (my - y a)) / (len * len);
                    dist = (dx * (my - y a) - dy * (mx - x a)) / len
                in percent > 0 \<and> percent < 1 \<and> \<bar>dist\<bar> < EDGE_MARGIN)
      | _ \<Rightarrow> False)"

definition contains :: "(ref \<Rightarrow> obj option) \<Rightarrow> ref \<Rightarrow> real \<Rightarrow> real \<Rightarrow> bool" where
  "contains h r mx my =
     (case h r of
        Some (Vertex v) \<Rightarrow> Vertex_contains v mx my
      | Some (Edge e) \<Rightarrow> Edge_contains h e mx my
      | Some (DirEdge e) \<Rightarrow> Edge_contains h e mx my
      | _ \<Rightarrow> False)"

text \<open>\<open>function selectObject(x, y)\<close>: the first vertex that contains the point, else the
  first edge, else \<open>undefined\<close>.\<close>

definition selectObject :: "state \<Rightarrow> real \<Rightarrow> real \<Rightarrow> ref option" where
  "selectObject s mx my =
     (case find (\<lambda>r. contains (heap s) r mx my) (vertices s) of
        Some r \<Rightarrow> Some r
      | None \<Rightarrow> find (\<lambda>r. contains (heap s) r mx my) (edges s))"

text \<open>\<open>function containsEdge(edge)\<close>.\<close>

fun containsEdge_loop :: "(ref \<Rightarrow> obj option) \<Rightarrow> ref \<Rightarrow> ref list \<Rightarrow> bool" where
  "containsEdge_loop h edge [] = False"
| "containsEdge_loop h edge (e # es) =
     (if v1_of h edge = v1_of h e \<and> v2_of h edge = v2_of h e
         \<or> v2_of h edge = v1_of h e \<and> v1_of h edge = v2_of h e
      then True
      else containsEdge_loop h edge es)"

definition containsEdge :: "state \<Rightarrow> ref \<Rightarrow> bool" where
  "containsEdge s edge = containsEdge_loop (heap s) edge (edges s)"

section \<open>Snapping\<close>

text \<open>One round of the loop of \<open>function snap(vertex)\<close>: first the test and assignment on
  \<open>x\<close>, then on \<open>y\<close>, both reading the heap as it is at that moment (\<open>vertices[i]\<close> may be
  the dragged vertex itself).\<close>

definition snap_step :: "ref \<Rightarrow> ref \<Rightarrow> (ref \<Rightarrow> obj option) \<Rightarrow> (ref \<Rightarrow> obj option)" where
  "snap_step vertex u h =
     (let h1 = (case (h vertex, h u) of
                  (Some (Vertex v), Some (Vertex w)) \<Rightarrow>
                    if \<bar>x v - x w\<bar> < SNAP_MARGIN then h(vertex \<mapsto> Vertex (v\<lparr>x := x w\<rparr>)) else h
                | _ \<Rightarrow> h)
      in case (h1 vertex, h1 u) of
           (Some (Vertex v), Some (Vertex w)) \<Rightarrow>
             if \<bar>y v - y w\<bar> < SNAP_MARGIN then h1(vertex \<mapsto> Vertex (v\<lparr>y := y w\<rparr>)) else h1
         | _ \<Rightarrow> h1)"

fun snap_loop :: "ref \<Rightarrow> ref list \<Rightarrow> (ref \<Rightarrow> obj option) \<Rightarrow> (ref \<Rightarrow> obj option)" where
  "snap_loop vertex [] h = h"
| "snap_loop vertex (u # us) h = snap_loop vertex us (snap_step vertex u h)"

definition snap :: "ref \<Rightarrow> state \<Rightarrow> state" where
  "snap vertex s = s\<lparr>heap := snap_loop vertex (vertices s) (heap s)\<rparr>"

text \<open>The snap step as the specification words it, on one axis: going through the other
  vertices' coordinates, a coordinate closer than the tolerance replaces the dragged
  one.\<close>

definition snap_axis :: "real \<Rightarrow> real list \<Rightarrow> real" where
  "snap_axis c others = foldl (\<lambda>c' o'. if \<bar>c' - o'\<bar> < SNAP_MARGIN then o' else c') c others"

definition x_of :: "(ref \<Rightarrow> obj option) \<Rightarrow> ref \<Rightarrow> real" where
  "x_of h r = (case h r of Some (Vertex v) \<Rightarrow> x v | _ \<Rightarrow> 0)"

definition y_of :: "(ref \<Rightarrow> obj option) \<Rightarrow> ref \<Rightarrow> real" where
  "y_of h r = (case h r of Some (Vertex v) \<Rightarrow> y v | _ \<Rightarrow> 0)"

section \<open>Drawing\<close>

text \<open>A redraw changes the scene in one way only: \<open>Vertex.prototype.draw\<close> sets the radius
  of each vertex of the collection. What is painted or emitted is not modelled; what is
  modelled is that effect and the exception a draw call can raise.\<close>

datatype surface = Canvas2D | LaTeXDrawer

fun draw_vertices :: "(jsstring \<Rightarrow> real) \<Rightarrow> ref list \<Rightarrow> (ref \<Rightarrow> obj option) \<Rightarrow> (ref \<Rightarrow> obj option)" where
  "draw_vertices measureText [] h = h"
| "draw_vertices measureText (r # rs) h =
     draw_vertices measureText rs
       (case h r of Some (Vertex v) \<Rightarrow> h(r \<mapsto> Vertex (Vertex_draw measureText v)) | _ \<Rightarrow> h)"

text \<open>\<open>LaTeXDrawer.advancedFillText(text, originalText, x, y, angle)\<close>: when the text
  without its first space is not empty and \<open>angle != null\<close>, the body evaluates
  \<open>Math.cos(angleOrNull)\<close>; no variable \<open>angleOrNull\<close> is declared anywhere, so this raises
  a \<open>ReferenceError\<close>.\<close>

definition advancedFillText :: "jsstring \<Rightarrow> bool \<Rightarrow> error option" where
  "advancedFillText txt angle_not_null =
     (if length (remove1 32 txt) > 0
      then (if angle_not_null then Some ReferenceError else None)
      else None)"

text \<open>\<open>function drawText(c, oldText, x, y, angle, isSelected)\<close>: the canvas context has no
  \<open>advancedFillText\<close> and \<open>fillText\<close> is called; the markup surface has one.\<close>

definition drawText :: "surface \<Rightarrow> jsstring \<Rightarrow> bool \<Rightarrow> error option" where
  "drawText c oldText angle_not_null =
     (case c of
        Canvas2D \<Rightarrow> None
      | LaTeXDrawer \<Rightarrow> advancedFillText (makeSubscripts oldText) angle_not_null)"

text \<open>\<open>Edge.prototype.draw\<close> and \<open>DirEdge.prototype.draw\<close> end with \<open>drawText\<close> at an angle
  computed by \<open>Math.atan2\<close>, a number and never \<open>null\<close>; the pending edges draw no text.\<close>

definition edge_draw :: "surface \<Rightarrow> (ref \<Rightarrow> obj option) \<Rightarrow> ref \<Rightarrow> error option" where
  "edge_draw c h r =
     (case h r of
        Some (Edge e) \<Rightarrow> drawText c (elabel e) True
      | Some (DirEdge e) \<Rightarrow> drawText c (elabel e) True
      | _ \<Rightarrow> None)"

fun draw_edges :: "surface \<Rightarrow> (ref \<Rightarrow> obj option) \<Rightarrow> ref list \<Rightarrow> error option" where
  "draw_edges c h [] = None"
| "draw_edges c h (r # rs) =
     (case edge_draw c h r of Some e \<Rightarrow> Some e | None \<Rightarrow> draw_edges c h rs)"

text \<open>\<open>function drawWith(c)\<close>: the vertices, the edges, the edge under construction. An
  exception leaves the state as it is at the throw.\<close>

definition drawWith :: "(jsstring \<Rightarrow> real) \<Rightarrow> surface \<Rightarrow> state \<Rightarrow> state \<times> error option" where
  "drawWith measureText c s =
     (let s1 = s\<lparr>heap := draw_vertices measureText (vertices s) (heap s)\<rparr>
      in case draw_edges c (heap s1) (edges s1) of
           Some e \<Rightarrow> (s1, Some e)
         | None \<Rightarrow>
             (case currentEdge s1 of
                None \<Rightarrow> (s1, None)
              | Some r \<Rightarrow> (s1, edge_draw c (heap s1) r)))"

definition draw :: "(jsstring \<Rightarrow> real) \<Rightarrow> state \<Rightarrow> state" where
  "draw measureText s = fst (drawWith measureText Canvas2D s)"

text \<open>\<open>function saveAsLaTeX()\<close>. The assignment \<open>selectedObject = old\<close> follows the call of
  \<open>drawWith\<close> with no \<open>try\<close> around it. The text handed to the page is not modelled.\<close>

definition saveAsLaTeX :: "(jsstring \<Rightarrow> real) \<Rightarrow> state \<Rightarrow> state \<times> error option" where
  "saveAsLaTeX measureText s =
     (let old = selectedObject s;
          s1 = s\<lparr>selectedObject := None\<rparr>
      in case drawWith measureText LaTeXDrawer s1 of
           (s2, Some e) \<Rightarrow> (s2, Some e)
         | (s2, None) \<Rightarrow> (s2\<lparr>selectedObject := old\<rparr>, None))"

section \<open>The event handlers\<close>

text \<open>\<open>canvas.onmousedown\<close>. A pending edge is started when the \<open>shift\<close> or the \<open>ctrl\<close>
  flag is set, \<open>shift\<close> first.\<close>

definition mousedown :: "mouse \<Rightarrow> state \<Rightarrow> state" where
  "mousedown m s =
     (let s1 = s\<lparr>sourceMouse := Some m, selectedObject := selectObject s (fst m) (snd m)\<rparr>;
          s2 = (case selectedObject s1 of
                  None \<Rightarrow> s1
                | Some sel \<Rightarrow>
                    (case heap s1 sel of
                       Some (Vertex v) \<Rightarrow>
                         if shift s1 \<and> currentEdge s1 = None then
                           (let (r, s') = new (TempEdge sel m) s1 in s'\<lparr>currentEdge := Some r\<rparr>)
                         else if ctrl s1 \<and> currentEdge s1 = None then
                           (let (r, s') = new (TempDirEdge sel m) s1 in s'\<lparr>currentEdge := Some r\<rparr>)
                         else
                           s1\<lparr>movingObject := True,
                              heap := (heap s1)(sel \<mapsto> Vertex (setStartPoint v (fst m) (snd m)))\<rparr>
                     | _ \<Rightarrow> s1))
      in s2\<lparr>mouseDown := True\<rparr>)"

text \<open>\<open>canvas.onmouseup\<close>: a pending edge is dropped; an edge that reached a second vertex
  is pushed unless \<open>containsEdge\<close> finds one between the same two vertices.\<close>

definition commit :: "ref \<Rightarrow> state \<Rightarrow> state" where
  "commit ce s =
     (let s1 = (if \<not> containsEdge s ce then s\<lparr>edges := edges s @ [ce]\<rparr> else s)
      in s1\<lparr>currentEdge := None, lastKey := None\<rparr>)"

definition mouseup :: "mouse \<Rightarrow> state \<Rightarrow> state" where
  "mouseup m s =
     (let s1 = s\<lparr>movingObject := False\<rparr>;
          s2 = (case currentEdge s1 of
                  None \<Rightarrow> s1
                | Some ce \<Rightarrow>
                    (case heap s1 ce of
                       Some (TempEdge _ _) \<Rightarrow> s1\<lparr>currentEdge := None\<rparr>
                     | Some (TempDirEdge _ _) \<Rightarrow> s1\<lparr>currentEdge := None\<rparr>
                     | Some (Edge _) \<Rightarrow> commit ce s1
                     | Some (DirEdge _) \<Rightarrow> commit ce s1
                     | _ \<Rightarrow> s1))
      in s2\<lparr>mouseDown := False\<rparr>)"

text \<open>\<open>canvas.onmousemove\<close>, first part: while an edge is being created it is built anew;
  which kind is built is read from \<open>lastKey\<close>.\<close>

definition set_currentEdge :: "obj \<Rightarrow> state \<Rightarrow> state" where
  "set_currentEdge ob s = (let (r, s') = new ob s in s'\<lparr>currentEdge := Some r\<rparr>)"

definition rebuild :: "mouse \<Rightarrow> state \<Rightarrow> state" where
  "rebuild m s =
     (case currentEdge s of
        None \<Rightarrow> s
      | Some ce \<Rightarrow>
          (case selectedObject s of
             None \<Rightarrow> s
           | Some sel \<Rightarrow>
               (let destVertex =
                      (case selectObject s (fst m) (snd m) of
                         None \<Rightarrow> None
                       | Some d \<Rightarrow> if is_Vertex (heap s d) then Some d else None)
                in if is_Vertex (heap s sel) then
                     (case destVertex of
                        None \<Rightarrow>
                          if lastKey s = Some SHIFT then set_currentEdge (TempEdge sel m) s
                          else if lastKey s = Some CTRL then set_currentEdge (TempDirEdge sel m) s
                          else s
                      | Some d \<Rightarrow>
                          if lastKey s = Some SHIFT
                          then set_currentEdge (Edge \<lparr>v1 = sel, v2 = d, elabel = []\<rparr>) s
                          else if lastKey s = Some CTRL
                          then set_currentEdge (DirEdge \<lparr>v1 = sel, v2 = d, elabel = []\<rparr>) s
                          else s)
                   else s)))"

text \<open>Second part: a moving object follows the mouse and snaps. \<open>selectedObject\<close> can be
  \<open>null\<close> here (after Delete during a drag); the call of \<open>setAnchorPoint\<close> then raises a
  \<open>TypeError\<close> and the handler ends without redrawing.\<close>

definition mousemove :: "(jsstring \<Rightarrow> real) \<Rightarrow> mouse \<Rightarrow> state \<Rightarrow> state \<times> error option" where
  "mousemove measureText m s =
     (let s1 = rebuild m s
      in if movingObject s1 then
           (case selectedObject s1 of
              None \<Rightarrow> (s1, Some TypeError)
            | Some sel \<Rightarrow>
                (case heap s1 sel of
                   Some (Vertex v) \<Rightarrow>
                     (draw measureText
                        (snap sel (s1\<lparr>heap := (heap s1)(sel \<mapsto> Vertex (setAnchorPoint v (fst m) (snd m)))\<rparr>)),
                      None)
                 | _ \<Rightarrow> (s1, Some TypeError)))
         else (draw measureText s1, None))"

text \<open>\<open>canvas.ondblclick\<close>.\<close>

definition dblclick :: "(jsstring \<Rightarrow> real) \<Rightarrow> mouse \<Rightarrow> state \<Rightarrow> state" where
  "dblclick measureText m s =
     (let s1 = s\<lparr>selectedObject := selectObject s (fst m) (snd m)\<rparr>
      in case selectedObject s1 of
           Some _ \<Rightarrow> s1
         | None \<Rightarrow>
             (let (r, s2) = new (Vertex \<lparr>x = fst m, y = snd m, radius = VERTEX_RADIUS,
                                         mouseOffsetX = 0, mouseOffsetY = 0, label = []\<rparr>) s1
              in draw measureText (s2\<lparr>selectedObject := Some r, vertices := vertices s2 @ [r]\<rparr>)))"

text \<open>The two loops of the Delete branch of \<open>document.onkeydown\<close>:
  \<open>for (var i = 0; i < a.length; i++) if (P(a[i])) a.splice(i--, 1);\<close>. After a removal
  the index is decremented and then incremented, so the same index is tested again.\<close>

function splice_loop :: "(ref \<Rightarrow> bool) \<Rightarrow> nat \<Rightarrow> ref list \<Rightarrow> ref list" where
  "splice_loop P i a =
     (if i < length a then
        (if P (a ! i) then splice_loop P i (take i a @ drop (Suc i) a)
         else splice_loop P (Suc i) a)
      else a)"
  by pat_completeness auto
termination
  by (relation "measure (\<lambda>(P, i, a). length a - i)") auto

declare splice_loop.simps [simp del]

text \<open>Reading and writing the property \<open>text\<close> of the selected object.\<close>

definition text_of :: "obj \<Rightarrow> jsstring option" where
  "text_of ob =
     (case ob of
        Vertex v \<Rightarrow> Some (label v)
      | Edge e \<Rightarrow> Some (elabel e)
      | DirEdge e \<Rightarrow> Some (elabel e)
      | _ \<Rightarrow> None)"

definition set_text :: "jsstring \<Rightarrow> obj \<Rightarrow> obj" where
  "set_text t ob =
     (case ob of
        Vertex v \<Rightarrow> Vertex (v\<lparr>label := t\<rparr>)
      | Edge e \<Rightarrow> Edge (e\<lparr>elabel := t\<rparr>)
      | DirEdge e \<Rightarrow> DirEdge (e\<lparr>elabel := t\<rparr>)
      | other \<Rightarrow> other)"

text \<open>\<open>document.onkeydown\<close>. An object without a \<open>text\<close> (a pending edge, which the
  handlers never select) would make \<open>selectedObject.text.substr\<close> raise a \<open>TypeError\<close>.\<close>

definition keydown :: "(jsstring \<Rightarrow> real) \<Rightarrow> nat \<Rightarrow> state \<Rightarrow> state \<times> error option" where
  "keydown measureText key s =
     (let s1 = (if \<not> mouseDown s then s\<lparr>lastKey := Some key\<rparr> else s)
      in if key = SHIFT then (s1\<lparr>shift := True\<rparr>, None)
         else if key = CTRL then (s1\<lparr>ctrl := True\<rparr>, None)
         else
           (case selectedObject s1 of
              None \<Rightarrow> (s1, None)
            | Some sel \<Rightarrow>
                if key = BACKSPACE then
                  (case heap s1 sel of
                     None \<Rightarrow> (s1, Some TypeError)
                   | Some ob \<Rightarrow>
                       (case text_of ob of
                          None \<Rightarrow> (s1, Some TypeError)
                        | Some t \<Rightarrow>
                            (draw measureText
                               (s1\<lparr>heap := (heap s1)(sel \<mapsto> set_text (substr t 0 (int (length t) - 1)) ob)\<rparr>),
                             None)))
                else if key = DELETE then
                  (draw measureText
                     (s1\<lparr>vertices := splice_loop (\<lambda>r. r = sel) 0 (vertices s1),
                         edges := splice_loop
                                    (\<lambda>r. r = sel \<or> v1_of (heap s1) r = Some sel \<or> v2_of (heap s1) r = Some sel)
                                    0 (edges s1),
                         selectedObject := None\<rparr>),
                   None)
                else (s1, None)))"

text \<open>\<open>document.onkeyup\<close>.\<close>

definition keyup :: "nat \<Rightarrow> state \<Rightarrow> state" where
  "keyup key s =
     (if key = SHIFT then s\<lparr>shift := False\<rparr>
      else if key = CTRL then s\<lparr>ctrl := False\<rparr>
      else s)"

text \<open>\<open>document.onkeypress\<close>. The test \<open>!canvasHasFocus\<close> negates a function object and is
  always false.\<close>

definition keypress :: "(jsstring \<Rightarrow> real) \<Rightarrow> nat \<Rightarrow> state \<Rightarrow> state \<times> error option" where
  "keypress measureText key s =
     (case selectedObject s of
        None \<Rightarrow> (s, None)
      | Some sel \<Rightarrow>
          if 32 \<le> key \<and> key \<le> 126 then
            (case heap s sel of
               None \<Rightarrow> (s, Some TypeError)
             | Some ob \<Rightarrow>
                 (case text_of ob of
                    None \<Rightarrow> (s, Some TypeError)
                  | Some t \<Rightarrow>
                      (draw measureText (s\<lparr>heap := (heap s)(sel \<mapsto> set_text (t @ fromCharCode key) ob)\<rparr>),
                       None)))
          else (s, None))"

text \<open>The state when the page has loaded.\<close>

definition init :: state where
  "init = \<lparr>selectedObject = None, currentEdge = None, sourceMouse = None, movingObject = False,
            vertices = [], edges = [], lastKey = None, shift = False, ctrl = False,
            mouseDown = False, heap = Map.empty, nextRef = 0\<rparr>"

section \<open>Notions used in the statements\<close>

text \<open>The radius of a vertex is derived: every redraw sets it again from the label. Two
  objects are compared up to the radius by comparing them with the radius put to zero.\<close>

definition forget_radius :: "obj \<Rightarrow> obj" where
  "forget_radius ob = (case ob of Vertex v \<Rightarrow> Vertex (v\<lparr>radius := 0\<rparr>) | other \<Rightarrow> other)"

definition label_at :: "(ref \<Rightarrow> obj option) \<Rightarrow> ref \<Rightarrow> jsstring option" where
  "label_at h r = (case h r of None \<Rightarrow> None | Some ob \<Rightarrow> text_of ob)"

text \<open>An edge object \<open>e\<close> joins the unordered pair of \<open>a\<close> and \<open>b\<close>; the edges of the
  collection that do.\<close>

definition connects :: "(ref \<Rightarrow> obj option) \<Rightarrow> ref \<Rightarrow> ref \<Rightarrow> ref \<Rightarrow> bool" where
  "connects h a b e =
     (v1_of h e = Some a \<and> v2_of h e = Some b \<or> v1_of h e = Some b \<and> v2_of h e = Some a)"

definition edges_between :: "state \<Rightarrow> ref \<Rightarrow> ref \<Rightarrow> ref list" where
  "edges_between s a b = filter (connects (heap s) a b) (edges s)"

text \<open>No draw call of an export to markup raises: every edge of the collection, and the
  edge under construction, draws its text without an exception.\<close>

definition draws_on_markup :: "state \<Rightarrow> bool" where
  "draws_on_markup s =
     list_all (\<lambda>r. edge_draw LaTeXDrawer (heap s) r = None)
       (edges s @ (case currentEdge s of None \<Rightarrow> [] | Some r \<Rightarrow> [r]))"

text \<open>The parts of a fixed-point rendering: the sign, the digits before the point and the
  digits after it.\<close>

definition sign_of :: "real \<Rightarrow> jsstring" where
  "sign_of n = (if n < 0 then [45] else [])"

definition int_digits :: "real \<Rightarrow> nat \<Rightarrow> jsstring" where
  "int_digits a f = (let m = toFixed_int a f in take (length m - f) m)"

definition frac_digits :: "real \<Rightarrow> nat \<Rightarrow> jsstring" where
  "frac_digits a f = (let m = toFixed_int a f in drop (length m - f) m)"

text \<open>The label formatter as the specification words it (\<open>applySubscripts(text, style)\<close>):
  one pass over the text; each match of underscore, digits, underscore, found left to
  right without overlap, is replaced; everything else is copied.\<close>

datatype style = OnScreen | Markup

definition subscript_of :: "style \<Rightarrow> jsstring \<Rightarrow> jsstring" where
  "subscript_of st m =
     (let ds = filter isDigit m
      in case st of
           OnScreen \<Rightarrow> map (\<lambda>d. 8320 + (d - 48)) ds
         | Markup \<Rightarrow> [95, 123] @ ds @ [125])"

function applySubscripts :: "style \<Rightarrow> jsstring \<Rightarrow> jsstring" where
  "applySubscripts st [] = []"
| "applySubscripts st (c # cs) =
     (case match_here (c # cs) of
        Some m \<Rightarrow> subscript_of st m @ applySubscripts st (drop (length m) (c # cs))
      | None \<Rightarrow> c # applySubscripts st cs)"
  by pat_completeness auto
termination
  by (relation "measure (\<lambda>(st, s). length s)")
     (auto simp: match_here_def Let_def split: if_splits list.splits)

text \<open>The kind of the edge under construction.\<close>

datatype kind = Undirected | Directed

definition kind_of :: "obj \<Rightarrow> kind option" where
  "kind_of ob =
     (case ob of
        Vertex _ \<Rightarrow> None
      | Edge _ \<Rightarrow> Some Undirected
      | TempEdge _ _ \<Rightarrow> Some Undirected
      | DirEdge _ \<Rightarrow> Some Directed
      | TempDirEdge _ _ \<Rightarrow> Some Directed)"

definition currentKind :: "state \<Rightarrow> kind option" where
  "currentKind s =
     (case currentEdge s of
        None \<Rightarrow> None
      | Some r \<Rightarrow> (case heap s r of None \<Rightarrow> None | Some ob \<Rightarrow> kind_of ob))"

section \<open>Reachable scenes\<close>

text \<open>The scenes that the handlers can produce from the state of the loaded page, for a
  given text metric.\<close>

inductive reachable :: "(jsstring \<Rightarrow> real) \<Rightarrow> state \<Rightarrow> bool" for mt where
  loaded: "reachable mt init"
| mousedown: "reachable mt s \<Longrightarrow> reachable mt (mousedown m s)"
| mouseup: "reachable mt s \<Longrightarrow> reachable mt (mouseup m s)"
| mousemove: "reachable mt s \<Longrightarrow> reachable mt (fst (mousemove mt m s))"
| dblclick: "reachable mt s \<Longrightarrow> reachable mt (dblclick mt m s)"
| keydown: "reachable mt s \<Longrightarrow> reachable mt (fst (keydown mt key s))"
| keyup: "reachable mt s \<Longrightarrow> reachable mt (keyup key s)"
| keypress: "reachable mt s \<Longrightarrow> reachable mt (fst (keypress mt key s))"
| saveAsLaTeX: "reachable mt s \<Longrightarrow> reachable mt (fst (saveAsLaTeX mt s))"

text \<open>A scene is well formed when the vertex collection holds vertex objects, the edge
  collection holds edge objects, the selection is a vertex or an edge, every reference in
  use is below the allocation counter, and no two edges of the collection join the same
  pair of vertices.\<close>

definition well_formed :: "state \<Rightarrow> bool" where
  "well_formed s =
     ((\<forall>r \<in> set (vertices s). r < nextRef s \<and> is_Vertex (heap s r))
      \<and> (\<forall>r \<in> set (edges s). r < nextRef s \<and> is_Edge (heap s r))
      \<and> (\<forall>r. selectedObject s = Some r \<longrightarrow>
             r < nextRef s \<and> (is_Vertex (heap s r) \<or> is_Edge (heap s r)))
      \<and> (\<forall>ce. currentEdge s = Some ce \<longrightarrow> ce < nextRef s)
      \<and> (\<forall>a b. length (edges_between s a b) \<le> 1))"

text \<open>What every handler but the release of the mouse does to a scene: the objects below
  the allocation counter keep their kind and their end points, edges are only removed,
  new entries of the vertex collection are new vertices, and the selection is the old
  one, an entry of a collection or a new vertex.\<close>

text \<open>The radii of the vertices of a collection are the ones a redraw would give.\<close>

definition in_sync :: "(jsstring \<Rightarrow> real) \<Rightarrow> ref list \<Rightarrow> (ref \<Rightarrow> obj option) \<Rightarrow> bool" where
  "in_sync mt rs h = (\<forall>r \<in> set rs. \<forall>v. h r = Some (Vertex v) \<longrightarrow> Vertex_draw mt v = v)"

definition kinds_kept :: "nat \<Rightarrow> (ref \<Rightarrow> obj option) \<Rightarrow> (ref \<Rightarrow> obj option) \<Rightarrow> bool" where
  "kinds_kept n h h' =
     (\<forall>r < n. v1_of h' r = v1_of h r \<and> v2_of h' r = v2_of h r
              \<and> is_Vertex (h' r) = is_Vertex (h r))"

definition fresh_vertex :: "state \<Rightarrow> state \<Rightarrow> ref \<Rightarrow> bool" where
  "fresh_vertex s s' r = (nextRef s \<le> r \<and> r < nextRef s' \<and> is_Vertex (heap s' r))"

definition step_ok :: "state \<Rightarrow> state \<Rightarrow> bool" where
  "step_ok s s' =
     (nextRef s \<le> nextRef s' \<and> kinds_kept (nextRef s) (heap s) (heap s')
      \<and> ((\<forall>ce. currentEdge s = Some ce \<longrightarrow> ce < nextRef s)
           \<longrightarrow> (\<forall>ce. currentEdge s' = Some ce \<longrightarrow> ce < nextRef s'))
      \<and> (\<exists>P. edges s' = filter P (edges s))
      \<and> (\<forall>r \<in> set (vertices s'). r \<in> set (vertices s) \<or> fresh_vertex s s' r)
      \<and> (\<forall>r. selectedObject s' = Some r \<longrightarrow>
             selectedObject s = Some r \<or> r \<in> set (vertices s) \<or> r \<in> set (edges s)
             \<or> fresh_vertex s s' r))"

section \<open>Concrete scenes\<close>

text \<open>A text metric for the examples: twelve units for each code unit.\<close>

definition width12 :: "jsstring \<Rightarrow> real" where
  "width12 t = 12 * real (length t)"

definition vertex_100 :: vertex where
  "vertex_100 = \<lparr>x = 100, y = 100, radius = 30, mouseOffsetX = 0, mouseOffsetY = 0, label = []\<rparr>"

text \<open>Vertices at (100, 100) and (104, 100), the second one selected and labelled.\<close>

definition two_vertices :: state where
  "two_vertices =
     \<lparr>selectedObject = Some 1, currentEdge = None, sourceMouse = None, movingObject = False,
      vertices = [0, 1], edges = [], lastKey = None, shift = False, ctrl = False,
      mouseDown = False,
      heap = [0 \<mapsto> Vertex vertex_100,
              1 \<mapsto> Vertex \<lparr>x = 104, y = 100, radius = 30, mouseOffsetX = 0, mouseOffsetY = 0,
                             label = str ''ab''\<rparr>],
      nextRef = 2\<rparr>"

definition dragging :: state where
  "dragging = two_vertices\<lparr>movingObject := True, mouseDown := True\<rparr>"

text \<open>Two vertices made by double clicks at (50, 50) and (200, 50).\<close>

definition two_apart :: state where
  "two_apart = dblclick width12 (200, 50) (dblclick width12 (50, 50) init)"

text \<open>Shift is held, the mouse is pressed on the first vertex and moved onto the second.\<close>

definition first_drag :: state where
  "first_drag =
     fst (mousemove width12 (200, 50)
       (mousedown (50, 50) (fst (keydown width12 SHIFT two_apart))))"

text \<open>The edge is released; then Control is held instead and the same is done from the
  second vertex back to the first.\<close>

definition second_drag :: state where
  "second_drag =
     fst (mousemove width12 (50, 50)
       (mousedown (200, 50)
         (fst (keydown width12 CTRL (keyup SHIFT (mouseup (200, 50) first_drag))))))"

text \<open>Shift is pressed, then Control, then the mouse on the first vertex.\<close>

definition pressed :: state where
  "pressed =
     mousedown (50, 50) (fst (keydown width12 CTRL (fst (keydown width12 SHIFT two_apart))))"

text \<open>A triangle of three vertices with the first one selected.\<close>

definition triangle :: state where
  "triangle =
     \<lparr>selectedObject = Some 0, currentEdge = None, sourceMouse = None, movingObject = False,
      vertices = [0, 1, 2], edges = [3, 4, 5], lastKey = None, shift = False, ctrl = False,
      mouseDown = False,
      heap = [0 \<mapsto> Vertex \<lparr>x = 50, y = 50, radius = 30, mouseOffsetX = 0, mouseOffsetY = 0, label = []\<rparr>,
              1 \<mapsto> Vertex \<lparr>x = 200, y = 50, radius = 30, mouseOffsetX = 0, mouseOffsetY = 0, label = []\<rparr>,
              2 \<mapsto> Vertex \<lparr>x = 200, y = 200, radius = 30, mouseOffsetX = 0, mouseOffsetY = 0, label = []\<rparr>,
              3 \<mapsto> Edge \<lparr>v1 = 0, v2 = 1, elabel = []\<rparr>,
              4 \<mapsto> DirEdge \<lparr>v1 = 1, v2 = 2, elabel = []\<rparr>,
              5 \<mapsto> DirEdge \<lparr>v1 = 2, v2 = 0, elabel = []\<rparr>],
      nextRef = 6\<rparr>"

text \<open>After the first gesture is released and Shift is let go: two vertices, the first
  one selected, and an undirected edge between them.\<close>

definition edge_drawn :: state where
  "edge_drawn = keyup SHIFT (mouseup (200, 50) first_drag)"

text \<open>The edge is clicked in its middle and the key \<open>a\<close> is typed; then the first vertex
  is clicked.\<close>

definition edge_labelled :: state where
  "edge_labelled =
     fst (keypress width12 97 (mouseup (125, 50) (mousedown (125, 50) edge_drawn)))"

definition vertex_selected :: state where
  "vertex_selected = mouseup (50, 50) (mousedown (50, 50) edge_labelled)"

section \<open>Redrawing keeps the scene up to the radii\<close>

lemma forget_radius_Vertex_draw:
  "forget_radius (Vertex (Vertex_draw mt v)) = forget_radius (Vertex v)"
  by (simp add: forget_radius_def Vertex_draw_def Let_def)

lemma draw_vertex_forget:
  "map_option forget_radius
     ((case h a of Some (Vertex v) \<Rightarrow> h(a \<mapsto> Vertex (Vertex_draw mt v)) | _ \<Rightarrow> h) r)
   = map_option forget_radius (h r)"
proof (cases "h a")
  case None
  then show ?thesis by simp
next
  case (Some ob)
  then show ?thesis
    by (cases ob) (simp_all add: forget_radius_Vertex_draw)
qed

lemma draw_vertices_forget:
  "map_option forget_radius (draw_vertices mt rs h r) = map_option forget_radius (h r)"
proof (induction rs arbitrary: h)
  case Nil
  then show ?case by simp
next
  case (Cons a rs)
  show ?case
    unfolding draw_vertices.simps Cons.IH by (rule draw_vertex_forget)
qed

lemma drawWith_state:
  "fst (drawWith mt c s) = s\<lparr>heap := draw_vertices mt (vertices s) (heap s)\<rparr>"
  by (simp add: drawWith_def Let_def split: option.splits)

lemma draw_fields:
  "vertices (draw mt s) = vertices s" "edges (draw mt s) = edges s"
  "selectedObject (draw mt s) = selectedObject s" "currentEdge (draw mt s) = currentEdge s"
  "lastKey (draw mt s) = lastKey s" "shift (draw mt s) = shift s" "ctrl (draw mt s) = ctrl s"
  "mouseDown (draw mt s) = mouseDown s" "movingObject (draw mt s) = movingObject s"
  "sourceMouse (draw mt s) = sourceMouse s" "nextRef (draw mt s) = nextRef s"
  "heap (draw mt s) = draw_vertices mt (vertices s) (heap s)"
  by (simp_all add: draw_def drawWith_state)

lemma v1_of_forget:
  assumes "map_option forget_radius (h r) = map_option forget_radius (h' r)"
  shows "v1_of h r = v1_of h' r"
  using assms
  by (cases "h r"; cases "h' r") (auto simp: v1_of_def forget_radius_def split: obj.splits)

lemma v2_of_forget:
  assumes "map_option forget_radius (h r) = map_option forget_radius (h' r)"
  shows "v2_of h r = v2_of h' r"
  using assms
  by (cases "h r"; cases "h' r") (auto simp: v2_of_def forget_radius_def split: obj.splits)

lemma text_of_forget: "text_of (forget_radius ob) = text_of ob"
  by (cases ob) (simp_all add: text_of_def forget_radius_def)

lemma label_at_alt:
  "label_at h r = (case map_option forget_radius (h r) of None \<Rightarrow> None | Some ob \<Rightarrow> text_of ob)"
  by (cases "h r") (simp_all add: label_at_def text_of_forget)

lemma label_at_forget:
  assumes "map_option forget_radius (h r) = map_option forget_radius (h' r)"
  shows "label_at h r = label_at h' r"
  by (simp only: label_at_alt assms)

lemma edge_draw_forget:
  assumes "map_option forget_radius (h r) = map_option forget_radius (h' r)"
  shows "edge_draw c h r = edge_draw c h' r"
  using assms
  by (cases "h r"; cases "h' r") (auto simp: edge_draw_def forget_radius_def split: obj.splits)

text \<open>The definitions that evaluate the handlers on a concrete scene.\<close>

lemmas handler_defs =
  two_apart_def dblclick_def init_def new_def draw_def drawWith_def selectObject_def Let_def
  Vertex_draw_def VERTEX_RADIUS_def VERTEX_PADDING_def width12_def makeSubscripts_def match_g_def
  keydown_def keyup_def SHIFT_def CTRL_def BACKSPACE_def DELETE_def mousedown_def contains_def
  Vertex_contains_def setStartPoint_def mousemove_def rebuild_def set_currentEdge_def
  is_Vertex_def mouseup_def commit_def containsEdge_def v1_of_def v2_of_def edge_draw_def
  drawText_def

section \<open>The loops of the handlers\<close>

text \<open>The loop that splices out the matching entries is a filter.\<close>

lemma splice_loop_filter:
  "splice_loop P i a = take i a @ filter (\<lambda>r. \<not> P r) (drop i a)"
proof (induction P i a rule: splice_loop.induct)
  case (1 P i a)
  show ?case
  proof (cases "i < length a")
    case False
    then show ?thesis by (subst splice_loop.simps) simp
  next
    case True
    note lt = True
    have d: "drop i a = a ! i # drop (Suc i) a"
      using lt by (simp add: Cons_nth_drop_Suc)
    show ?thesis
    proof (cases "P (a ! i)")
      case True
      have "splice_loop P i a = splice_loop P i (take i a @ drop (Suc i) a)"
        using lt True by (subst splice_loop.simps) simp
      also have "\<dots> = take i (take i a @ drop (Suc i) a)
          @ filter (\<lambda>r. \<not> P r) (drop i (take i a @ drop (Suc i) a))"
        using "1.IH"(1) [OF lt True] .
      also have "\<dots> = take i a @ filter (\<lambda>r. \<not> P r) (drop (Suc i) a)"
        using lt by simp
      finally show ?thesis using d True by simp
    next
      case False
      have "splice_loop P i a = splice_loop P (Suc i) a"
        using lt False by (subst splice_loop.simps) simp
      also have "\<dots> = take (Suc i) a @ filter (\<lambda>r. \<not> P r) (drop (Suc i) a)"
        using "1.IH"(2) [OF lt False] .
      finally show ?thesis using d False lt by (simp add: take_Suc_conv_app_nth)
    qed
  qed
qed

lemma is_Edge_not_Vertex: "is_Edge ob \<Longrightarrow> \<not> is_Vertex ob"
  by (cases ob) (auto simp: is_Edge_def is_Vertex_def split: obj.splits)

text \<open>The search of \<open>containsEdge\<close> and the commit of an edge on release.\<close>

lemma containsEdge_loop_connects:
  assumes "v1_of h ce = Some A" and "v2_of h ce = Some B"
  shows "containsEdge_loop h ce es = (filter (connects h A B) es \<noteq> [])"
  using assms by (induction es) (auto simp: connects_def)

lemma connects_sym: "connects h a b = connects h b a"
  by (auto simp: connects_def fun_eq_iff)

lemma mouseup_commit:
  assumes "currentEdge s = Some ce" and "v1_of (heap s) ce = Some A" and "v2_of (heap s) ce = Some B"
  shows "edges (mouseup m s) = (if edges_between s A B = [] then edges s @ [ce] else edges s)"
    and "heap (mouseup m s) = heap s"
    and "currentEdge (mouseup m s) = None"
  using assms containsEdge_loop_connects [OF assms(2,3), of "edges s"]
  by (auto simp: mouseup_def commit_def Let_def containsEdge_def edges_between_def v1_of_def
           split: option.splits obj.splits)

section \<open>Every reachable scene is well formed\<close>

lemma is_Edge_v1_of: "is_Edge (h r) \<longleftrightarrow> v1_of h r \<noteq> None"
  by (auto simp: is_Edge_def v1_of_def split: option.splits obj.splits)

lemma kinds_kept_refl: "kinds_kept n h h"
  by (simp add: kinds_kept_def)

lemma kinds_kept_trans: "kinds_kept n h h' \<Longrightarrow> kinds_kept n h' h'' \<Longrightarrow> kinds_kept n h h''"
  by (simp add: kinds_kept_def)

lemma kinds_kept_mono: "kinds_kept n' h h' \<Longrightarrow> n \<le> n' \<Longrightarrow> kinds_kept n h h'"
  by (simp add: kinds_kept_def)

lemma kinds_kept_new: "n \<le> k \<Longrightarrow> kinds_kept n h (h(k \<mapsto> ob))"
  by (auto simp: kinds_kept_def v1_of_def v2_of_def)

lemma kinds_kept_vertex:
  "h r = Some (Vertex v) \<Longrightarrow> kinds_kept n h (h(r \<mapsto> Vertex v'))"
  by (auto simp: kinds_kept_def v1_of_def v2_of_def is_Vertex_def)

lemma kinds_kept_set_text:
  "h r = Some ob \<Longrightarrow> kinds_kept n h (h(r \<mapsto> set_text t ob))"
  by (cases ob) (auto simp: kinds_kept_def v1_of_def v2_of_def set_text_def is_Vertex_def)

lemma is_Vertex_forget:
  assumes "map_option forget_radius (h r) = map_option forget_radius (h' r)"
  shows "is_Vertex (h r) = is_Vertex (h' r)"
  using assms
  by (cases "h r"; cases "h' r") (auto simp: is_Vertex_def forget_radius_def split: obj.splits)

lemma kinds_kept_draw_vertices: "kinds_kept n h (draw_vertices mt rs h)"
proof -
  have "v1_of (draw_vertices mt rs h) r = v1_of h r" for r
    by (rule v1_of_forget) (rule draw_vertices_forget)
  moreover have "v2_of (draw_vertices mt rs h) r = v2_of h r" for r
    by (rule v2_of_forget) (rule draw_vertices_forget)
  moreover have "is_Vertex (draw_vertices mt rs h r) = is_Vertex (h r)" for r
    by (rule is_Vertex_forget) (rule draw_vertices_forget)
  ultimately show ?thesis by (simp add: kinds_kept_def)
qed

lemma kinds_kept_snap_step: "kinds_kept n h (snap_step v u h)"
proof -
  have a: "kinds_kept n h (case (h v, h u) of
                  (Some (Vertex V), Some (Vertex W)) \<Rightarrow>
                    if \<bar>x V - x W\<bar> < SNAP_MARGIN then h(v \<mapsto> Vertex (V\<lparr>x := x W\<rparr>)) else h
                | _ \<Rightarrow> h)" for h
    by (auto simp: kinds_kept_refl kinds_kept_vertex split: option.splits obj.splits)
  have b: "kinds_kept n h (case (h v, h u) of
                  (Some (Vertex V), Some (Vertex W)) \<Rightarrow>
                    if \<bar>y V - y W\<bar> < SNAP_MARGIN then h(v \<mapsto> Vertex (V\<lparr>y := y W\<rparr>)) else h
                | _ \<Rightarrow> h)" for h
    by (auto simp: kinds_kept_refl kinds_kept_vertex split: option.splits obj.splits)
  show ?thesis
    unfolding snap_step_def Let_def by (rule kinds_kept_trans [OF a b])
qed

lemma kinds_kept_snap_loop: "kinds_kept n h (snap_loop v us h)"
proof (induction us arbitrary: h)
  case Nil
  then show ?case by (simp add: kinds_kept_refl)
next
  case (Cons u us)
  show ?case
    unfolding snap_loop.simps
    by (rule kinds_kept_trans [OF kinds_kept_snap_step Cons.IH])
qed

lemma step_ok_refl: "step_ok s s"
  by (auto simp: step_ok_def kinds_kept_refl intro: exI [of _ "\<lambda>r. True"])

lemma fresh_vertex_trans1:
  assumes "fresh_vertex s s' r" and "nextRef s' \<le> nextRef s''"
    and "kinds_kept (nextRef s') (heap s') (heap s'')"
  shows "fresh_vertex s s'' r"
  using assms by (auto simp: fresh_vertex_def kinds_kept_def)

lemma fresh_vertex_trans2:
  assumes "fresh_vertex s' s'' r" and "nextRef s \<le> nextRef s'"
  shows "fresh_vertex s s'' r"
  using assms by (auto simp: fresh_vertex_def)

lemma step_ok_trans:
  assumes "step_ok s s'" and "step_ok s' s''"
  shows "step_ok s s''"
proof -
  obtain P where P: "edges s' = filter P (edges s)"
    using assms(1) by (auto simp: step_ok_def)
  obtain Q where Q: "edges s'' = filter Q (edges s')"
    using assms(2) by (auto simp: step_ok_def)
  have "edges s'' = filter (\<lambda>r. P r \<and> Q r) (edges s)"
    by (simp add: P Q)
  then have e: "\<exists>R. edges s'' = filter R (edges s)" by blast
  have le: "nextRef s \<le> nextRef s'" "nextRef s' \<le> nextRef s''"
    using assms by (simp_all add: step_ok_def)
  have k1: "kinds_kept (nextRef s) (heap s) (heap s')"
    and k2: "kinds_kept (nextRef s') (heap s') (heap s'')"
    using assms by (simp_all add: step_ok_def)
  have k: "kinds_kept (nextRef s) (heap s) (heap s'')"
    using k1 k2 le by (auto intro: kinds_kept_trans kinds_kept_mono)
  have f1: "fresh_vertex s s' r \<Longrightarrow> fresh_vertex s s'' r" for r
    using le(2) k2 by (auto intro: fresh_vertex_trans1)
  have f2: "fresh_vertex s' s'' r \<Longrightarrow> fresh_vertex s s'' r" for r
    using le(1) by (auto intro: fresh_vertex_trans2)
  have v1: "\<forall>r \<in> set (vertices s'). r \<in> set (vertices s) \<or> fresh_vertex s s' r"
    and v2: "\<forall>r \<in> set (vertices s''). r \<in> set (vertices s') \<or> fresh_vertex s' s'' r"
    using assms by (simp_all add: step_ok_def)
  have v: "\<forall>r \<in> set (vertices s''). r \<in> set (vertices s) \<or> fresh_vertex s s'' r"
    using v1 v2 f1 f2 by blast
  have s1: "\<forall>r. selectedObject s' = Some r \<longrightarrow>
             selectedObject s = Some r \<or> r \<in> set (vertices s) \<or> r \<in> set (edges s)
             \<or> fresh_vertex s s' r"
    and s2: "\<forall>r. selectedObject s'' = Some r \<longrightarrow>
             selectedObject s' = Some r \<or> r \<in> set (vertices s') \<or> r \<in> set (edges s')
             \<or> fresh_vertex s' s'' r"
    using assms by (simp_all add: step_ok_def)
  have es: "r \<in> set (edges s') \<Longrightarrow> r \<in> set (edges s)" for r
    by (simp add: P)
  have sel: "\<forall>r. selectedObject s'' = Some r \<longrightarrow>
             selectedObject s = Some r \<or> r \<in> set (vertices s) \<or> r \<in> set (edges s)
             \<or> fresh_vertex s s'' r"
    using s1 s2 v1 es f1 f2 by blast
  have c: "(\<forall>ce. currentEdge s = Some ce \<longrightarrow> ce < nextRef s)
           \<longrightarrow> (\<forall>ce. currentEdge s'' = Some ce \<longrightarrow> ce < nextRef s'')"
    using assms by (simp add: step_ok_def)
  show ?thesis
    unfolding step_ok_def using le k c e v sel by simp
qed

lemma step_ok_inv:
  assumes "well_formed s" and "step_ok s s'"
  shows "well_formed s'"
proof -
  obtain P where P: "edges s' = filter P (edges s)"
    using assms(2) by (auto simp: step_ok_def)
  have k: "kinds_kept (nextRef s) (heap s) (heap s')" and le: "nextRef s \<le> nextRef s'"
    using assms(2) by (simp_all add: step_ok_def)
  have wv: "\<forall>r \<in> set (vertices s). r < nextRef s \<and> is_Vertex (heap s r)"
    and we: "\<forall>r \<in> set (edges s). r < nextRef s \<and> is_Edge (heap s r)"
    and ws: "\<forall>r. selectedObject s = Some r \<longrightarrow>
             r < nextRef s \<and> (is_Vertex (heap s r) \<or> is_Edge (heap s r))"
    and wu: "\<forall>a b. length (edges_between s a b) \<le> 1"
    using assms(1) by (simp_all add: well_formed_def)
  have keepV: "is_Vertex (heap s' r)" if "r < nextRef s" "is_Vertex (heap s r)" for r
    using k that by (simp add: kinds_kept_def)
  have keepE: "is_Edge (heap s' r)" if "r < nextRef s" "is_Edge (heap s r)" for r
    using k that by (simp add: kinds_kept_def is_Edge_v1_of)
  have fr: "fresh_vertex s s' r \<Longrightarrow> r < nextRef s' \<and> is_Vertex (heap s' r)" for r
    by (simp add: fresh_vertex_def)
  have 1: "\<forall>r \<in> set (vertices s'). r < nextRef s' \<and> is_Vertex (heap s' r)"
  proof
    fix r assume "r \<in> set (vertices s')"
    then have "r \<in> set (vertices s) \<or> fresh_vertex s s' r"
      using assms(2) by (simp add: step_ok_def)
    then show "r < nextRef s' \<and> is_Vertex (heap s' r)"
      using wv keepV fr le by fastforce
  qed
  have 2: "\<forall>r \<in> set (edges s'). r < nextRef s' \<and> is_Edge (heap s' r)"
    using we keepE le P by fastforce
  have 3: "\<forall>r. selectedObject s' = Some r \<longrightarrow>
             r < nextRef s' \<and> (is_Vertex (heap s' r) \<or> is_Edge (heap s' r))"
  proof (intro allI impI)
    fix r assume "selectedObject s' = Some r"
    then have "selectedObject s = Some r \<or> r \<in> set (vertices s) \<or> r \<in> set (edges s)
             \<or> fresh_vertex s s' r"
      using assms(2) by (simp add: step_ok_def)
    then show "r < nextRef s' \<and> (is_Vertex (heap s' r) \<or> is_Edge (heap s' r))"
      using wv we ws keepV keepE fr le by fastforce
  qed
  have 5: "length (edges_between s' a b) \<le> 1" for a b
  proof -
    have "filter (connects (heap s') a b) (edges s) = filter (connects (heap s) a b) (edges s)"
      using k we by (intro filter_cong) (auto simp: connects_def kinds_kept_def)
    then have "filter P (filter (connects (heap s') a b) (edges s)) = filter P (edges_between s a b)"
      by (simp only: edges_between_def)
    moreover have "edges_between s' a b = filter P (filter (connects (heap s') a b) (edges s))"
      by (simp add: edges_between_def P conj_commute)
    ultimately have "edges_between s' a b = filter P (edges_between s a b)"
      by simp
    then have "length (edges_between s' a b) \<le> length (edges_between s a b)"
      by (simp only: length_filter_le)
    moreover have "length (edges_between s a b) \<le> 1"
      using wu by simp
    ultimately show ?thesis by (rule order_trans)
  qed
  have 4: "\<forall>ce. currentEdge s' = Some ce \<longrightarrow> ce < nextRef s'"
    using assms by (simp add: well_formed_def step_ok_def)
  show ?thesis
    unfolding well_formed_def using 1 2 3 4 5 by simp
qed

lemma selectObject_in:
  "selectObject s mx my = Some r \<Longrightarrow> r \<in> set (vertices s) \<or> r \<in> set (edges s)"
  by (auto simp: selectObject_def find_Some_iff split: option.splits)

lemma step_ok_plain:
  assumes "nextRef s' = nextRef s" and "heap s' = heap s" and "edges s' = edges s"
    and "vertices s' = vertices s"
    and "currentEdge s' = currentEdge s \<or> currentEdge s' = None"
    and "selectedObject s' = selectedObject s \<or> selectedObject s' = None
         \<or> selectedObject s' = selectObject s mx my"
  shows "step_ok s s'"
proof -
  have sel: "\<forall>r. selectedObject s' = Some r \<longrightarrow>
             selectedObject s = Some r \<or> r \<in> set (vertices s) \<or> r \<in> set (edges s)
             \<or> fresh_vertex s s' r"
    using assms(6) by (metis selectObject_in option.distinct(1))
  have "\<exists>P. edges s' = filter P (edges s)"
    using assms(3) by (auto intro: exI [of _ "\<lambda>r. True"])
  then show ?thesis
    unfolding step_ok_def using assms(1,2,4,5) sel by (auto simp: kinds_kept_refl)
qed

lemma step_ok_heap:
  assumes "nextRef s' = nextRef s" and "kinds_kept (nextRef s) (heap s) (heap s')"
    and "edges s' = edges s" and "vertices s' = vertices s"
    and "currentEdge s' = currentEdge s"
    and "selectedObject s' = selectedObject s \<or> selectedObject s' = None"
  shows "step_ok s s'"
  using assms by (auto simp: step_ok_def intro: exI [of _ "\<lambda>r. True"])

lemma step_ok_set_currentEdge: "step_ok s (set_currentEdge ob s)"
  by (auto simp: step_ok_def set_currentEdge_def new_def kinds_kept_new
           intro: exI [of _ "\<lambda>r. True"])

lemma step_ok_draw: "step_ok s (draw mt s)"
  by (rule step_ok_heap) (simp_all add: draw_fields kinds_kept_draw_vertices)

lemma step_ok_snap: "step_ok s (snap v s)"
  by (rule step_ok_heap) (simp_all add: snap_def kinds_kept_snap_loop)

lemma step_ok_keyup: "step_ok s (keyup key s)"
  by (rule step_ok_plain [where mx = 0 and my = 0]) (simp_all add: keyup_def)

lemma step_ok_mousedown: "step_ok s (mousedown m s)"
proof -
  let ?s1 = "s\<lparr>sourceMouse := Some m, selectedObject := selectObject s (fst m) (snd m)\<rparr>"
  have 1: "step_ok s ?s1"
    by (rule step_ok_plain [where mx = "fst m" and my = "snd m"]) simp_all
  have n: "step_ok ?s1 (let (r, s') = new ob ?s1 in s'\<lparr>currentEdge := Some r\<rparr>)" for ob
    using step_ok_set_currentEdge [of ?s1 ob] by (simp add: set_currentEdge_def)
  have v: "step_ok ?s1 (?s1\<lparr>movingObject := True, heap := (heap ?s1)(sel \<mapsto> Vertex v')\<rparr>)"
    if "heap ?s1 sel = Some (Vertex v)" for sel v v'
    by (rule step_ok_heap) (use that in \<open>simp_all add: kinds_kept_vertex\<close>)
  have 2: "step_ok ?s1 (case selectedObject ?s1 of
                  None \<Rightarrow> ?s1
                | Some sel \<Rightarrow>
                    (case heap ?s1 sel of
                       Some (Vertex v) \<Rightarrow>
                         if shift ?s1 \<and> currentEdge ?s1 = None then
                           (let (r, s') = new (TempEdge sel m) ?s1 in s'\<lparr>currentEdge := Some r\<rparr>)
                         else if ctrl ?s1 \<and> currentEdge ?s1 = None then
                           (let (r, s') = new (TempDirEdge sel m) ?s1 in s'\<lparr>currentEdge := Some r\<rparr>)
                         else
                           ?s1\<lparr>movingObject := True,
                              heap := (heap ?s1)(sel \<mapsto> Vertex (setStartPoint v (fst m) (snd m)))\<rparr>
                     | _ \<Rightarrow> ?s1))" (is "step_ok ?s1 ?s2")
    using n v by (auto simp: step_ok_refl split: option.splits obj.splits)
  have 3: "step_ok ?s2 (?s2\<lparr>mouseDown := True\<rparr>)"
    by (rule step_ok_plain [where mx = 0 and my = 0]) simp_all
  show ?thesis
    using step_ok_trans [OF step_ok_trans [OF 1 2] 3] by (simp add: mousedown_def Let_def)
qed

lemma step_ok_rebuild: "step_ok s (rebuild m s)"
  by (auto simp: rebuild_def Let_def step_ok_refl step_ok_set_currentEdge split: option.splits)

lemma step_ok_mousemove: "step_ok s (fst (mousemove mt m s))"
proof -
  let ?s1 = "rebuild m s"
  have v: "step_ok ?s1 (draw mt (snap sel (?s1\<lparr>heap := (heap ?s1)(sel \<mapsto> Vertex v')\<rparr>)))"
    if "heap ?s1 sel = Some (Vertex v)" for sel v v'
  proof -
    have "step_ok ?s1 (?s1\<lparr>heap := (heap ?s1)(sel \<mapsto> Vertex v')\<rparr>)"
      by (rule step_ok_heap) (use that in \<open>simp_all add: kinds_kept_vertex\<close>)
    then show ?thesis
      by (rule step_ok_trans [OF _ step_ok_trans [OF step_ok_snap step_ok_draw]])
  qed
  have "step_ok ?s1 (fst (mousemove mt m s))"
    using v by (auto simp: mousemove_def Let_def step_ok_refl step_ok_draw split: option.splits obj.splits)
  then show ?thesis
    by (rule step_ok_trans [OF step_ok_rebuild])
qed

lemma step_ok_dblclick: "step_ok s (dblclick mt m s)"
proof -
  let ?s1 = "s\<lparr>selectedObject := selectObject s (fst m) (snd m)\<rparr>"
  have 1: "step_ok s ?s1"
    by (rule step_ok_plain [where mx = "fst m" and my = "snd m"]) simp_all
  have 2: "step_ok ?s1 (let (r, s2) = new (Vertex v) ?s1
              in draw mt (s2\<lparr>selectedObject := Some r, vertices := vertices s2 @ [r]\<rparr>))" for v
  proof -
    have a: "step_ok ?s1 ((snd (new (Vertex v) ?s1))\<lparr>selectedObject := Some (fst (new (Vertex v) ?s1)),
                vertices := vertices (snd (new (Vertex v) ?s1)) @ [fst (new (Vertex v) ?s1)]\<rparr>)"
      by (auto simp: step_ok_def new_def kinds_kept_new fresh_vertex_def is_Vertex_def
               intro: exI [of _ "\<lambda>r. True"])
    show ?thesis
      using step_ok_trans [OF a step_ok_draw] by (simp add: split_def Let_def)
  qed
  show ?thesis
    using 1 2 by (auto simp: dblclick_def Let_def split: option.splits intro: step_ok_trans)
qed

lemma step_ok_keydown: "step_ok s (fst (keydown mt key s))"
proof -
  let ?s1 = "if \<not> mouseDown s then s\<lparr>lastKey := Some key\<rparr> else s"
  have 1: "step_ok s ?s1"
    by (rule step_ok_plain [where mx = 0 and my = 0]) simp_all
  have t: "step_ok ?s1 (draw mt (?s1\<lparr>heap := (heap ?s1)(sel \<mapsto> set_text t' ob)\<rparr>))"
    if "heap ?s1 sel = Some ob" for sel ob t'
  proof -
    have "step_ok ?s1 (?s1\<lparr>heap := (heap ?s1)(sel \<mapsto> set_text t' ob)\<rparr>)"
      by (rule step_ok_heap) (use that in \<open>simp_all add: kinds_kept_set_text\<close>)
    then show ?thesis by (rule step_ok_trans [OF _ step_ok_draw])
  qed
  have d: "step_ok ?s1 (draw mt (?s1\<lparr>vertices := splice_loop Q 0 (vertices ?s1),
                         edges := splice_loop P 0 (edges ?s1),
                         selectedObject := None\<rparr>))" for Q P
  proof -
    have "step_ok ?s1 (?s1\<lparr>vertices := splice_loop Q 0 (vertices ?s1),
                         edges := splice_loop P 0 (edges ?s1),
                         selectedObject := None\<rparr>)"
      by (auto simp: step_ok_def kinds_kept_refl splice_loop_filter)
    then show ?thesis by (rule step_ok_trans [OF _ step_ok_draw])
  qed
  have p: "step_ok ?s1 (?s1\<lparr>shift := True\<rparr>)" "step_ok ?s1 (?s1\<lparr>ctrl := True\<rparr>)"
    by (rule step_ok_plain [where mx = 0 and my = 0]; simp)+
  have 2: "step_ok ?s1 (fst (keydown mt key s))"
    unfolding keydown_def Let_def
    using t d p by (auto simp: step_ok_refl split: option.splits)
  show ?thesis
    by (rule step_ok_trans [OF 1 2])
qed

lemma step_ok_keypress: "step_ok s (fst (keypress mt key s))"
proof -
  have t: "step_ok s (draw mt (s\<lparr>heap := (heap s)(sel \<mapsto> set_text t' ob)\<rparr>))"
    if "heap s sel = Some ob" for sel ob t'
  proof -
    have "step_ok s (s\<lparr>heap := (heap s)(sel \<mapsto> set_text t' ob)\<rparr>)"
      by (rule step_ok_heap) (use that in \<open>simp_all add: kinds_kept_set_text\<close>)
    then show ?thesis by (rule step_ok_trans [OF _ step_ok_draw])
  qed
  show ?thesis
    unfolding keypress_def
    using t by (auto simp: step_ok_refl split: option.splits)
qed

lemma step_ok_saveAsLaTeX: "step_ok s (fst (saveAsLaTeX mt s))"
proof -
  let ?s1 = "s\<lparr>selectedObject := None\<rparr>"
  obtain s2 err where d: "drawWith mt LaTeXDrawer ?s1 = (s2, err)"
    by (cases "drawWith mt LaTeXDrawer ?s1")
  have s2: "s2 = ?s1\<lparr>heap := draw_vertices mt (vertices s) (heap s)\<rparr>"
    using drawWith_state [of mt LaTeXDrawer ?s1] d by simp
  have "step_ok s s2" "step_ok s (s2\<lparr>selectedObject := selectedObject s\<rparr>)"
    unfolding s2 by (rule step_ok_heap; simp add: kinds_kept_draw_vertices)+
  then show ?thesis
    by (cases err) (simp_all add: saveAsLaTeX_def Let_def d)
qed

lemma mouseup_fields:
  "nextRef (mouseup m s) = nextRef s" "vertices (mouseup m s) = vertices s"
  "selectedObject (mouseup m s) = selectedObject s" "heap (mouseup m s) = heap s"
  by (simp_all add: mouseup_def commit_def Let_def split: option.splits obj.splits)

lemma mouseup_no_commit:
  assumes "\<not> (\<exists>ce A. currentEdge s = Some ce \<and> v1_of (heap s) ce = Some A)"
  shows "edges (mouseup m s) = edges s
    \<and> (currentEdge (mouseup m s) = None \<or> currentEdge (mouseup m s) = currentEdge s)"
  using assms
  by (auto simp: mouseup_def commit_def Let_def v1_of_def split: option.splits obj.splits)

lemma well_formed_mouseup:
  assumes "well_formed s"
  shows "well_formed (mouseup m s)"
proof (cases "\<exists>ce A. currentEdge s = Some ce \<and> v1_of (heap s) ce = Some A")
  case False
  then have "edges (mouseup m s) = edges s
    \<and> (currentEdge (mouseup m s) = None \<or> currentEdge (mouseup m s) = currentEdge s)"
    by (rule mouseup_no_commit)
  then show ?thesis
    using assms by (auto simp: well_formed_def edges_between_def mouseup_fields)
next
  case True
  then obtain ce A where ce: "currentEdge s = Some ce" and A: "v1_of (heap s) ce = Some A"
    by blast
  then obtain B where B: "v2_of (heap s) ce = Some B"
    by (auto simp: v1_of_def v2_of_def split: option.splits obj.splits)
  note mc = mouseup_commit [OF ce A B, of m]
  have lt: "ce < nextRef s" using assms ce by (simp add: well_formed_def)
  have ie: "is_Edge (heap s ce)" using A by (simp add: is_Edge_v1_of)
  have u: "length (edges_between s a b) \<le> 1" for a b
    using assms by (simp add: well_formed_def)
  have "length (edges_between (mouseup m s) a b) \<le> 1" for a b
  proof (cases "edges_between s A B = []")
    case False
    then show ?thesis using u [of a b] by (simp add: mc edges_between_def)
  next
    case True
    show ?thesis
    proof (cases "connects (heap s) a b ce")
      case False
      then show ?thesis using u [of a b] True by (simp add: mc edges_between_def)
    next
      case c: True
      then have "a = A \<and> b = B \<or> a = B \<and> b = A"
        using A B by (auto simp: connects_def)
      then have "edges_between s a b = []"
        using True by (auto simp: edges_between_def connects_sym [of _ B A])
      then show ?thesis using True c by (simp add: mc edges_between_def)
    qed
  qed
  moreover have "\<forall>r \<in> set (edges (mouseup m s)).
      r < nextRef (mouseup m s) \<and> is_Edge (heap (mouseup m s) r)"
    using assms lt ie by (auto simp: mc mouseup_fields well_formed_def)
  ultimately show ?thesis
    using assms by (simp add: well_formed_def mc mouseup_fields)
qed

lemma reachable_well_formed:
  assumes "reachable mt s"
  shows "well_formed s"
  using assms
proof (induction rule: reachable.induct)
  case loaded
  show ?case by (simp add: well_formed_def init_def edges_between_def)
next
  case (mouseup s m)
  then show ?case by (simp add: well_formed_mouseup)
qed (auto intro: step_ok_inv step_ok_mousedown step_ok_mousemove step_ok_dblclick
       step_ok_keydown step_ok_keyup step_ok_keypress step_ok_saveAsLaTeX)

section \<open>In a reachable scene a redraw changes nothing\<close>

lemma Vertex_draw_idem: "Vertex_draw mt (Vertex_draw mt v) = Vertex_draw mt v"
  by (simp add: Vertex_draw_def Let_def)

lemma draw_vertices_other: "r \<notin> set rs \<Longrightarrow> draw_vertices mt rs h r = h r"
  by (induction rs arbitrary: h) (auto split: option.splits obj.splits)

lemma draw_vertices_at:
  assumes "r \<in> set rs" and "h r = Some (Vertex v)"
  shows "draw_vertices mt rs h r = Some (Vertex (Vertex_draw mt v))"
  using assms
proof (induction rs arbitrary: h v)
  case Nil
  then show ?case by simp
next
  case (Cons a rs)
  let ?h = "case h a of Some (Vertex w) \<Rightarrow> h(a \<mapsto> Vertex (Vertex_draw mt w)) | _ \<Rightarrow> h"
  show ?case
  proof (cases "a = r")
    case True
    then have hr: "?h r = Some (Vertex (Vertex_draw mt v))"
      using Cons.prems(2) by simp
    show ?thesis
    proof (cases "r \<in> set rs")
      case True
      then show ?thesis
        using Cons.IH [of ?h "Vertex_draw mt v"] hr by (simp add: Vertex_draw_idem)
    next
      case False
      then show ?thesis using hr by (simp add: draw_vertices_other)
    qed
  next
    case False
    then have "r \<in> set rs" using Cons.prems(1) by simp
    moreover have "?h r = Some (Vertex v)"
      using False Cons.prems(2) by (auto split: option.splits obj.splits)
    ultimately show ?thesis
      using Cons.IH [of ?h v] by simp
  qed
qed

lemma draw_vertices_kind:
  "draw_vertices mt rs h r = Some (Vertex v') \<Longrightarrow> \<exists>v. h r = Some (Vertex v)"
  using draw_vertices_forget [of mt rs h r]
  by (cases "h r") (auto simp: forget_radius_def split: obj.splits)

lemma in_sync_draw_vertices: "in_sync mt rs (draw_vertices mt rs h)"
  unfolding in_sync_def
proof (intro ballI allI impI)
  fix r v assume r: "r \<in> set rs" and d: "draw_vertices mt rs h r = Some (Vertex v)"
  obtain w where "h r = Some (Vertex w)" using draw_vertices_kind [OF d] by blast
  then have "v = Vertex_draw mt w" using draw_vertices_at [of r rs h w mt] r d by simp
  then show "Vertex_draw mt v = v" by (simp add: Vertex_draw_idem)
qed

lemma draw_vertices_fixed:
  assumes "in_sync mt rs h"
  shows "draw_vertices mt rs h = h"
proof (rule ext)
  fix r
  show "draw_vertices mt rs h r = h r"
  proof (cases "r \<in> set rs")
    case False
    then show ?thesis by (rule draw_vertices_other)
  next
    case True
    show ?thesis
    proof (cases "\<exists>v. h r = Some (Vertex v)")
      case True
      then obtain v where v: "h r = Some (Vertex v)" by blast
      then have "Vertex_draw mt v = v" using assms \<open>r \<in> set rs\<close> by (simp add: in_sync_def)
      then show ?thesis using draw_vertices_at [of r rs h v mt] \<open>r \<in> set rs\<close> v by simp
    next
      case False
      have "map_option forget_radius (draw_vertices mt rs h r) = map_option forget_radius (h r)"
        by (rule draw_vertices_forget)
      then show ?thesis
        using False
        by (cases "h r"; cases "draw_vertices mt rs h r")
           (auto simp: forget_radius_def split: obj.splits)
    qed
  qed
qed

lemma in_sync_draw: "in_sync mt (vertices (draw mt s)) (heap (draw mt s))"
  by (simp add: draw_fields in_sync_draw_vertices)

lemma in_sync_new:
  assumes "in_sync mt rs h" and "\<forall>r \<in> set rs. r < n"
  shows "in_sync mt rs (h(n \<mapsto> ob))"
  using assms by (auto simp: in_sync_def)

lemma in_sync_offsets:
  assumes "in_sync mt rs h" and "h sel = Some (Vertex v)"
  shows "in_sync mt rs (h(sel \<mapsto> Vertex (setStartPoint v a b)))"
proof -
  have "Vertex_draw mt (setStartPoint v a b) = setStartPoint v a b" if "Vertex_draw mt v = v"
  proof -
    have "Vertex_draw mt (setStartPoint v a b) = setStartPoint (Vertex_draw mt v) a b"
      by (simp add: Vertex_draw_def setStartPoint_def Let_def)
    then show ?thesis using that by simp
  qed
  then show ?thesis
    using assms by (auto simp: in_sync_def)
qed

lemma in_sync_mousedown:
  assumes "in_sync mt (vertices s) (heap s)" and "\<forall>r \<in> set (vertices s). r < nextRef s"
  shows "in_sync mt (vertices (mousedown m s)) (heap (mousedown m s))"
  using assms
  by (auto simp: mousedown_def Let_def new_def in_sync_new in_sync_offsets
           split: option.splits obj.splits)

lemma in_sync_rebuild:
  assumes "in_sync mt (vertices s) (heap s)" and "\<forall>r \<in> set (vertices s). r < nextRef s"
  shows "in_sync mt (vertices (rebuild m s)) (heap (rebuild m s))"
  using assms
  by (auto simp: rebuild_def Let_def set_currentEdge_def new_def in_sync_new split: option.splits)

lemma mousemove_shape:
  "(\<exists>s'. fst (mousemove mt m s) = draw mt s') \<or> fst (mousemove mt m s) = rebuild m s"
  by (auto simp: mousemove_def Let_def split: option.splits obj.splits)

lemma dblclick_shape:
  "(\<exists>s'. dblclick mt m s = draw mt s')
   \<or> (heap (dblclick mt m s) = heap s \<and> vertices (dblclick mt m s) = vertices s)"
  by (auto simp: dblclick_def Let_def split: option.splits prod.splits)

lemma keydown_shape:
  "(\<exists>s'. fst (keydown mt key s) = draw mt s')
   \<or> (heap (fst (keydown mt key s)) = heap s \<and> vertices (fst (keydown mt key s)) = vertices s)"
  by (auto simp: keydown_def Let_def split: option.splits)

lemma keypress_shape:
  "(\<exists>s'. fst (keypress mt key s) = draw mt s')
   \<or> (heap (fst (keypress mt key s)) = heap s \<and> vertices (fst (keypress mt key s)) = vertices s)"
  by (auto simp: keypress_def Let_def split: option.splits)

lemma saveAsLaTeX_shape:
  "heap (fst (saveAsLaTeX mt s)) = draw_vertices mt (vertices s) (heap s)
   \<and> vertices (fst (saveAsLaTeX mt s)) = vertices s"
proof -
  let ?s1 = "s\<lparr>selectedObject := None\<rparr>"
  obtain s2 err where d: "drawWith mt LaTeXDrawer ?s1 = (s2, err)"
    by (cases "drawWith mt LaTeXDrawer ?s1")
  have s2: "s2 = ?s1\<lparr>heap := draw_vertices mt (vertices s) (heap s)\<rparr>"
    using drawWith_state [of mt LaTeXDrawer ?s1] d by simp
  show ?thesis
    by (cases err) (simp_all add: saveAsLaTeX_def Let_def d s2)
qed

lemma reachable_in_sync:
  assumes "reachable mt s"
  shows "in_sync mt (vertices s) (heap s)"
  using assms
proof (induction rule: reachable.induct)
  case loaded
  show ?case by (simp add: in_sync_def init_def)
next
  case (mousedown s m)
  have "\<forall>r \<in> set (vertices s). r < nextRef s"
    using reachable_well_formed [OF mousedown.hyps] by (simp add: well_formed_def)
  then show ?case using mousedown.IH by (rule in_sync_mousedown [rotated])
next
  case (mouseup s m)
  then show ?case by (simp add: mouseup_fields)
next
  case (mousemove s m)
  have b: "\<forall>r \<in> set (vertices s). r < nextRef s"
    using reachable_well_formed [OF mousemove.hyps] by (simp add: well_formed_def)
  show ?case
    using mousemove_shape [of mt m s] in_sync_rebuild [OF mousemove.IH b, of m]
    by (auto simp: in_sync_draw)
next
  case (dblclick s m)
  show ?case
    using dblclick_shape [of mt m s] dblclick.IH by (auto simp: in_sync_draw)
next
  case (keydown s key)
  show ?case
    using keydown_shape [of mt key s] keydown.IH by (auto simp: in_sync_draw)
next
  case (keyup s key)
  then show ?case by (simp add: keyup_def)
next
  case (keypress s key)
  show ?case
    using keypress_shape [of mt key s] keypress.IH by (auto simp: in_sync_draw)
next
  case (saveAsLaTeX s)
  show ?case
    using saveAsLaTeX_shape [of mt s] by (simp add: in_sync_draw_vertices)
qed

lemma reachable_draw_fixed: "reachable mt s \<Longrightarrow> heap (draw mt s) = heap s"
  by (simp add: draw_fields draw_vertices_fixed reachable_in_sync)

section \<open>C8: the radius set by drawing a vertex\<close>

text \<open>
  C8 says that drawing a vertex sets its radius to the maximum of the base radius 30 and
  half the measured label width plus the padding 10. The source compares the width with
  \<open>2 * VERTEX_RADIUS - VERTEX_RADIUS / 3 = 50\<close>: below 50 the radius is 30, from 50 on it
  is \<open>w / 2 + 10\<close>. That is the maximum for every width up to 40 and from 50 on; for a
  width between 40 and 50 the radius stays 30 although \<open>w / 2 + 10\<close> is larger.
\<close>

theorem Vertex_draw_radius:
  "radius (Vertex_draw measureText v) =
     (if measureText (makeSubscripts (label v)) < 50 then 30
      else measureText (makeSubscripts (label v)) / 2 + 10)
   \<and> (measureText (makeSubscripts (label v)) \<le> 40 \<or> 50 \<le> measureText (makeSubscripts (label v)) \<longrightarrow>
        radius (Vertex_draw measureText v)
          = max VERTEX_RADIUS (measureText (makeSubscripts (label v)) / 2 + VERTEX_PADDING))"
  by (simp add: Vertex_draw_def Let_def VERTEX_RADIUS_def VERTEX_PADDING_def max_def)

theorem Vertex_draw_radius_witness:
  "radius (Vertex_draw (\<lambda>t. 60) vertex_100) = 40
   \<and> radius (Vertex_draw (\<lambda>t. 60) vertex_100) = max VERTEX_RADIUS (60 / 2 + VERTEX_PADDING)
   \<and> radius (Vertex_draw (\<lambda>t. 20) vertex_100) = 30"
  using Vertex_draw_radius [of "\<lambda>t. 60" vertex_100] Vertex_draw_radius [of "\<lambda>t. 20" vertex_100]
  by (simp add: VERTEX_RADIUS_def VERTEX_PADDING_def)

text \<open>A label 44 wide: the radius is 30, the maximum would be 32.\<close>

theorem Vertex_draw_radius_counterexample:
  "radius (Vertex_draw (\<lambda>t. 44) vertex_100) \<noteq> max VERTEX_RADIUS (44 / 2 + VERTEX_PADDING)"
  by (simp add: Vertex_draw_def Let_def VERTEX_RADIUS_def VERTEX_PADDING_def)

section \<open>C4: the nearest point on the circle\<close>

text \<open>
  C4 says that the nearest-point computation is total, and that a target equal to the
  centre is guarded and gives the centre. The function is total and raises nothing, but
  it has no guard: for a target equal to the centre it divides zero by the zero distance,
  and both coordinates are \<open>NaN\<close>. For every other target the distance is not zero and
  the result is the point at distance \<open>radius\<close> from the centre towards the target.
\<close>

theorem nearestCirclePoint_total:
  "nearestCirclePoint v (x v) (y v) = (NaN, NaN)
   \<and> (tx \<noteq> x v \<or> ty \<noteq> y v \<longrightarrow>
        nearestCirclePoint v tx ty =
          (Num (x v + radius v * (tx - x v) / sqrt ((tx - x v) * (tx - x v) + (ty - y v) * (ty - y v))),
           Num (y v + radius v * (ty - y v) / sqrt ((tx - x v) * (tx - x v) + (ty - y v) * (ty - y v)))))"
proof -
  have nz: "sqrt ((tx - x v) * (tx - x v) + (ty - y v) * (ty - y v)) \<noteq> 0"
    if "tx \<noteq> x v \<or> ty \<noteq> y v"
  proof -
    have "(tx - x v) * (tx - x v) + (ty - y v) * (ty - y v) \<noteq> 0"
      using that by simp
    then show ?thesis by simp
  qed
  show ?thesis
    using nz by (auto simp: nearestCirclePoint_def Let_def js_div_def js_add_def)
qed

theorem nearestCirclePoint_total_witness:
  "nearestCirclePoint vertex_100 100 100 = (NaN, NaN)
   \<and> nearestCirclePoint vertex_100 103 104 = (Num 118, Num 124)"
  using nearestCirclePoint_total [of vertex_100 103 104]
  by (simp add: vertex_100_def)

theorem nearestCirclePoint_counterexample:
  "nearestCirclePoint vertex_100 (x vertex_100) (y vertex_100)
     \<noteq> (Num (x vertex_100), Num (y vertex_100))"
  by (simp add: nearestCirclePoint_def Let_def js_div_def js_add_def vertex_100_def)

section \<open>C10: Backspace on the selected label\<close>

lemma substr_butlast: "substr t 0 (int (length t) - 1) = butlast t"
  by (cases t rule: rev_cases) (simp_all add: substr_def Let_def)

lemma text_of_set_text: "text_of ob = Some t \<Longrightarrow> text_of (set_text t' ob) = Some t'"
  by (cases ob) (simp_all add: text_of_def set_text_def)

lemma keydown_BACKSPACE:
  assumes "selectedObject s = Some sel" and "heap s sel = Some ob" and "text_of ob = Some t"
  shows "keydown mt BACKSPACE s =
      (draw mt ((if \<not> mouseDown s then s\<lparr>lastKey := Some BACKSPACE\<rparr> else s)
          \<lparr>heap := (heap s)(sel \<mapsto> set_text (butlast t) ob)\<rparr>), None)"
  using assms
  by (simp add: keydown_def Let_def BACKSPACE_def SHIFT_def CTRL_def substr_butlast)

text \<open>The handler on a selected object that has a text.\<close>

lemma keydown_BACKSPACE_facts:
  assumes "selectedObject s = Some sel" and "heap s sel = Some ob" and "text_of ob = Some t"
  shows "snd (keydown mt BACKSPACE s) = None
    \<and> label_at (heap (fst (keydown mt BACKSPACE s))) sel = Some (butlast t)
    \<and> (t = [] \<longrightarrow> label_at (heap (fst (keydown mt BACKSPACE s))) sel = Some [])
    \<and> (\<forall>r. r \<noteq> sel \<longrightarrow> label_at (heap (fst (keydown mt BACKSPACE s))) r = label_at (heap s) r)
    \<and> (\<forall>r. map_option forget_radius (heap (fst (keydown mt BACKSPACE s)) r)
           = map_option forget_radius (((heap s)(sel \<mapsto> set_text (butlast t) ob)) r))
    \<and> vertices (fst (keydown mt BACKSPACE s)) = vertices s
    \<and> edges (fst (keydown mt BACKSPACE s)) = edges s
    \<and> selectedObject (fst (keydown mt BACKSPACE s)) = selectedObject s
    \<and> currentEdge (fst (keydown mt BACKSPACE s)) = currentEdge s"
proof -
  note k = keydown_BACKSPACE [OF assms, of mt]
  have hp: "map_option forget_radius (heap (fst (keydown mt BACKSPACE s)) r)
      = map_option forget_radius (((heap s)(sel \<mapsto> set_text (butlast t) ob)) r)" for r
    unfolding k by (auto simp: draw_fields draw_vertices_forget)
  have la: "label_at (heap (fst (keydown mt BACKSPACE s))) r
      = label_at ((heap s)(sel \<mapsto> set_text (butlast t) ob)) r" for r
    by (rule label_at_forget) (rule hp)
  have l1: "label_at (heap (fst (keydown mt BACKSPACE s))) sel = Some (butlast t)"
    unfolding la by (simp add: label_at_def text_of_set_text [OF assms(3)])
  have l2: "\<forall>r. r \<noteq> sel \<longrightarrow> label_at (heap (fst (keydown mt BACKSPACE s))) r = label_at (heap s) r"
    unfolding la by (simp add: label_at_def)
  have fr: "vertices (fst (keydown mt BACKSPACE s)) = vertices s
    \<and> edges (fst (keydown mt BACKSPACE s)) = edges s
    \<and> selectedObject (fst (keydown mt BACKSPACE s)) = selectedObject s
    \<and> currentEdge (fst (keydown mt BACKSPACE s)) = currentEdge s"
    unfolding k by (auto simp: draw_fields)
  have er: "snd (keydown mt BACKSPACE s) = None"
    unfolding k by simp
  show ?thesis
    using er l1 l2 hp fr by simp
qed

lemma reachable_selection_text:
  assumes "reachable mt s" and "selectedObject s = Some sel"
  shows "\<exists>ob t. heap s sel = Some ob \<and> text_of ob = Some t"
proof -
  have "is_Vertex (heap s sel) \<or> is_Edge (heap s sel)"
    using reachable_well_formed [OF assms(1)] assms(2) by (simp add: well_formed_def)
  then show ?thesis
    by (auto simp: is_Vertex_def is_Edge_def text_of_def split: option.splits obj.splits)
qed

lemma keydown_no_selection:
  "selectedObject s = None \<Longrightarrow> snd (keydown mt key s) = None"
  by (simp add: keydown_def Let_def)

text \<open>
  C10: for a selected vertex or edge, Backspace raises no error; the label loses exactly
  its last character, and an empty label stays empty (\<open>substr(0, -1)\<close> is the empty
  string). The two collections, the selection and the edge under construction are as
  before, and so is every object of the heap but for the new label and the radii, which
  the redraw at the end of the handler derives again. (The handler also records the key in
  \<open>lastKey\<close> when the mouse is not down.) In every reachable scene the selection is a
  vertex or an edge, and Backspace raises no error there, with or without a selection.
\<close>

theorem backspace_drops_last:
  "(selectedObject s = Some sel \<and> heap s sel = Some ob \<and> text_of ob = Some t \<longrightarrow>
      snd (keydown mt BACKSPACE s) = None
    \<and> label_at (heap (fst (keydown mt BACKSPACE s))) sel = Some (butlast t)
    \<and> (t = [] \<longrightarrow> label_at (heap (fst (keydown mt BACKSPACE s))) sel = Some [])
    \<and> (\<forall>r. r \<noteq> sel \<longrightarrow> label_at (heap (fst (keydown mt BACKSPACE s))) r = label_at (heap s) r)
    \<and> (\<forall>r. map_option forget_radius (heap (fst (keydown mt BACKSPACE s)) r)
           = map_option forget_radius (((heap s)(sel \<mapsto> set_text (butlast t) ob)) r))
    \<and> vertices (fst (keydown mt BACKSPACE s)) = vertices s
    \<and> edges (fst (keydown mt BACKSPACE s)) = edges s
    \<and> selectedObject (fst (keydown mt BACKSPACE s)) = selectedObject s
    \<and> currentEdge (fst (keydown mt BACKSPACE s)) = currentEdge s)
   \<and> (reachable mt s \<longrightarrow> snd (keydown mt BACKSPACE s) = None)
   \<and> (reachable mt s \<and> selectedObject s = Some sel \<longrightarrow>
        (\<exists>ob t. heap s sel = Some ob \<and> text_of ob = Some t))"
proof (intro conjI impI)
  assume r: "reachable mt s"
  show "snd (keydown mt BACKSPACE s) = None"
  proof (cases "selectedObject s")
    case None
    then show ?thesis by (rule keydown_no_selection)
  next
    case (Some sel')
    obtain ob' t' where "heap s sel' = Some ob'" "text_of ob' = Some t'"
      using reachable_selection_text [OF r Some] by blast
    then show ?thesis
      using keydown_BACKSPACE [OF Some, of ob' t' mt] by simp
  qed
next
  assume "reachable mt s \<and> selectedObject s = Some sel"
  then show "\<exists>ob t. heap s sel = Some ob \<and> text_of ob = Some t"
    using reachable_selection_text by blast
qed (use keydown_BACKSPACE_facts [of s sel ob t mt] in \<open>simp_all\<close>)

theorem backspace_drops_last_witness:
  "label_at (heap (fst (keydown width12 BACKSPACE two_vertices))) 1 = Some (str ''a'')
   \<and> snd (keydown width12 BACKSPACE two_vertices) = None
   \<and> label_at (heap (fst (keydown width12 BACKSPACE (two_vertices\<lparr>selectedObject := Some 0\<rparr>)))) 0
       = Some []
   \<and> snd (keydown width12 BACKSPACE (two_vertices\<lparr>selectedObject := Some 0\<rparr>)) = None
   \<and> reachable width12 two_apart
   \<and> snd (keydown width12 BACKSPACE two_apart) = None"
proof -
  have a: "selectedObject two_vertices = Some 1"
    "heap two_vertices 1 = Some (Vertex \<lparr>x = 104, y = 100, radius = 30, mouseOffsetX = 0,
        mouseOffsetY = 0, label = str ''ab''\<rparr>)"
    "text_of (Vertex \<lparr>x = 104, y = 100, radius = 30, mouseOffsetX = 0,
        mouseOffsetY = 0, label = str ''ab''\<rparr>) = Some (str ''ab'')"
    by (simp_all add: two_vertices_def text_of_def)
  have b: "selectedObject (two_vertices\<lparr>selectedObject := Some 0\<rparr>) = Some 0"
    "heap (two_vertices\<lparr>selectedObject := Some 0\<rparr>) 0 = Some (Vertex vertex_100)"
    "text_of (Vertex vertex_100) = Some []"
    by (simp_all add: two_vertices_def text_of_def vertex_100_def)
  have c: "reachable width12 two_apart"
    unfolding two_apart_def by (intro reachable.intros)
  show ?thesis
    using backspace_drops_last [of two_vertices 1 _ "str ''ab''" width12]
      backspace_drops_last [of "two_vertices\<lparr>selectedObject := Some 0\<rparr>" 0 _ "[]" width12]
      backspace_drops_last [of two_apart _ _ _ width12] a b c
    by (simp add: str_def)
qed

section \<open>C2: Delete on a selected vertex\<close>

text \<open>
  C2: in a reachable scene, and in any scene whose edge collection holds edge objects,
  with the vertex \<open>V\<close> selected, the Delete key raises nothing, removes \<open>V\<close> and nothing
  else from the vertex collection, removes from the edge collection exactly the edges
  with \<open>v1 == V\<close> or \<open>v2 == V\<close>, keeps the order of what remains, and clears the
  selection. The end points of the edges are not touched.
\<close>

theorem delete_vertex_cascade:
  assumes "selectedObject s = Some V" and "is_Vertex (heap s V)"
    and "reachable mt s \<or> (\<forall>e \<in> set (edges s). is_Edge (heap s e))"
  shows "snd (keydown mt DELETE s) = None
    \<and> vertices (fst (keydown mt DELETE s)) = filter (\<lambda>r. r \<noteq> V) (vertices s)
    \<and> edges (fst (keydown mt DELETE s))
        = filter (\<lambda>e. \<not> (v1_of (heap s) e = Some V \<or> v2_of (heap s) e = Some V)) (edges s)
    \<and> selectedObject (fst (keydown mt DELETE s)) = None
    \<and> (\<forall>r. v1_of (heap (fst (keydown mt DELETE s))) r = v1_of (heap s) r
           \<and> v2_of (heap (fst (keydown mt DELETE s))) r = v2_of (heap s) r)"
proof -
  let ?s1 = "if \<not> mouseDown s then s\<lparr>lastKey := Some DELETE\<rparr> else s"
  have k: "keydown mt DELETE s =
      (draw mt (?s1\<lparr>vertices := splice_loop (\<lambda>r. r = V) 0 (vertices s),
                    edges := splice_loop
                      (\<lambda>r. r = V \<or> v1_of (heap s) r = Some V \<or> v2_of (heap s) r = Some V)
                      0 (edges s),
                    selectedObject := None\<rparr>), None)"
    using assms(1)
    by (simp add: keydown_def Let_def BACKSPACE_def SHIFT_def CTRL_def DELETE_def)
  have ed: "\<forall>e \<in> set (edges s). is_Edge (heap s e)"
    using assms(3) reachable_well_formed [of mt s] by (auto simp: well_formed_def)
  have ne: "e \<noteq> V" if "e \<in> set (edges s)" for e
    using assms(2) ed that is_Edge_not_Vertex [of "heap s e"] by auto
  have f: "filter (\<lambda>r. \<not> (r = V \<or> v1_of (heap s) r = Some V \<or> v2_of (heap s) r = Some V)) (edges s)
      = filter (\<lambda>e. \<not> (v1_of (heap s) e = Some V \<or> v2_of (heap s) e = Some V)) (edges s)"
    using ne by (intro filter_cong) auto
  have v: "v1_of (draw_vertices mt rs (heap s)) r = v1_of (heap s) r"
    "v2_of (draw_vertices mt rs (heap s)) r = v2_of (heap s) r" for rs r
    by (rule v1_of_forget, rule draw_vertices_forget) (rule v2_of_forget, rule draw_vertices_forget)
  show ?thesis
    unfolding k using f
    by (simp add: draw_fields splice_loop_filter v)
qed

text \<open>The triangle loses its first vertex and the two edges at it; in the reachable scene
  of the two double clicks the second vertex is selected and deleted.\<close>

theorem delete_vertex_cascade_witness:
  "vertices (fst (keydown width12 DELETE triangle)) = [1, 2]
   \<and> edges (fst (keydown width12 DELETE triangle)) = [4]
   \<and> selectedObject (fst (keydown width12 DELETE triangle)) = None
   \<and> snd (keydown width12 DELETE triangle) = None
   \<and> reachable width12 two_apart
   \<and> vertices (fst (keydown width12 DELETE two_apart)) = [0]"
proof -
  have r: "reachable width12 two_apart"
    unfolding two_apart_def by (intro reachable.intros)
  have t: "selectedObject two_apart = Some 1" "is_Vertex (heap two_apart 1)" "vertices two_apart = [0, 1]"
    by (simp_all add: handler_defs)
  show ?thesis
    using delete_vertex_cascade [of triangle 0 width12]
      delete_vertex_cascade [OF t(1,2), of width12] r t(3)
    by (simp add: triangle_def is_Vertex_def is_Edge_def v1_of_def v2_of_def)
qed

section \<open>C1: one edge between two vertices\<close>

text \<open>The release of the mouse while the edge under construction joins \<open>A\<close> and \<open>B\<close>.\<close>

lemma mouseup_commit_facts:
  assumes "currentEdge s = Some ce" and "v1_of (heap s) ce = Some A" and "v2_of (heap s) ce = Some B"
  shows "(edges_between s A B \<noteq> [] \<longrightarrow> edges (mouseup m s) = edges s)
    \<and> (edges_between s A B = [] \<longrightarrow>
          edges (mouseup m s) = edges s @ [ce] \<and> edges_between (mouseup m s) A B = [ce])
    \<and> length (edges_between (mouseup m s) A B) = max 1 (length (edges_between s A B))
    \<and> edges_between (mouseup m s) B A = edges_between (mouseup m s) A B
    \<and> (\<forall>a b. \<not> connects (heap s) a b ce \<longrightarrow>
          edges_between (mouseup m s) a b = edges_between s a b)
    \<and> (\<forall>ce2 m2. v1_of (heap s) ce2 = Some B \<and> v2_of (heap s) ce2 = Some A \<longrightarrow>
          edges (mouseup m2 ((mouseup m s)\<lparr>currentEdge := Some ce2\<rparr>)) = edges (mouseup m s))
    \<and> ((\<forall>a b. length (edges_between s a b) \<le> 1) \<longrightarrow>
          (\<forall>a b. length (edges_between (mouseup m s) a b) \<le> 1))"
proof -
  note mc = mouseup_commit [OF assms, of m]
  have c: "connects (heap s) A B ce"
    using assms(2,3) by (simp add: connects_def)
  have 1: "edges_between s A B \<noteq> [] \<longrightarrow> edges (mouseup m s) = edges s"
    by (simp add: mc)
  have 2: "edges_between s A B = [] \<longrightarrow>
          edges (mouseup m s) = edges s @ [ce] \<and> edges_between (mouseup m s) A B = [ce]"
    using c by (auto simp: mc edges_between_def)
  have 3: "length (edges_between (mouseup m s) A B) = max 1 (length (edges_between s A B))"
  proof (cases "edges_between s A B = []")
    case True
    then show ?thesis using 2 by simp
  next
    case False
    then have "1 \<le> length (edges_between s A B)"
      by (cases "edges_between s A B") simp_all
    moreover have "edges_between (mouseup m s) A B = edges_between s A B"
      using False by (simp add: mc edges_between_def)
    ultimately show ?thesis by simp
  qed
  have 4: "edges_between (mouseup m s) B A = edges_between (mouseup m s) A B"
    by (simp add: edges_between_def connects_sym [of _ B A])
  have 5: "\<forall>a b. \<not> connects (heap s) a b ce \<longrightarrow>
          edges_between (mouseup m s) a b = edges_between s a b"
    by (simp add: mc edges_between_def)
  have ne: "edges_between (mouseup m s) A B \<noteq> []"
    using 3 by (cases "edges_between (mouseup m s) A B") simp_all
  have 6: "edges (mouseup m2 ((mouseup m s)\<lparr>currentEdge := Some ce2\<rparr>)) = edges (mouseup m s)"
    if h: "v1_of (heap s) ce2 = Some B" "v2_of (heap s) ce2 = Some A" for ce2 m2
  proof -
    let ?t = "(mouseup m s)\<lparr>currentEdge := Some ce2\<rparr>"
    have "edges_between ?t B A \<noteq> []"
      using ne 4 by (simp add: edges_between_def)
    moreover have "currentEdge ?t = Some ce2" "v1_of (heap ?t) ce2 = Some B"
        "v2_of (heap ?t) ce2 = Some A"
      using h by (simp_all add: mc)
    ultimately show ?thesis
      using mouseup_commit(1) [of ?t ce2 B A m2] by simp
  qed
  have 7: "length (edges_between (mouseup m s) a b) \<le> 1"
    if u: "\<forall>a b. length (edges_between s a b) \<le> 1" for a b
  proof (cases "connects (heap s) a b ce")
    case True
    then have "a = A \<and> b = B \<or> a = B \<and> b = A"
      using assms(2,3) by (auto simp: connects_def)
    then have "edges_between (mouseup m s) a b = edges_between (mouseup m s) A B"
      using 4 by auto
    then show ?thesis using 3 u by (simp add: max_def)
  next
    case False
    then show ?thesis using 5 u by simp
  qed
  show ?thesis using 1 2 3 4 5 6 7 by blast
qed

text \<open>
  C1: in every reachable scene the edge collection holds at most one edge, undirected or
  directed, between any two vertices. For the release of the mouse while the edge under
  construction \<open>ce\<close> (of either kind) joins the vertices \<open>A\<close> and \<open>B\<close>: if the collection
  already holds an edge between \<open>A\<close> and \<open>B\<close>, in either direction and of either kind, the
  collection is left as it is; otherwise \<open>ce\<close> is appended and is then the only edge
  between them. So the number of edges between \<open>A\<close> and \<open>B\<close> afterwards is the number
  before, or one if there was none. The count does not depend on the order of the pair,
  the edges between other pairs are as before, and a further attempt in the reversed
  direction \<open>B\<close>, \<open>A\<close> changes nothing.
\<close>

theorem commit_keeps_one_edge:
  "(reachable mt s \<longrightarrow> (\<forall>a b. length (edges_between s a b) \<le> 1))
   \<and> (currentEdge s = Some ce \<and> v1_of (heap s) ce = Some A \<and> v2_of (heap s) ce = Some B \<longrightarrow>
        (edges_between s A B \<noteq> [] \<longrightarrow> edges (mouseup m s) = edges s)
      \<and> (edges_between s A B = [] \<longrightarrow>
            edges (mouseup m s) = edges s @ [ce] \<and> edges_between (mouseup m s) A B = [ce])
      \<and> length (edges_between (mouseup m s) A B) = max 1 (length (edges_between s A B))
      \<and> edges_between (mouseup m s) B A = edges_between (mouseup m s) A B
      \<and> (\<forall>a b. \<not> connects (heap s) a b ce \<longrightarrow>
            edges_between (mouseup m s) a b = edges_between s a b)
      \<and> (\<forall>ce2 m2. v1_of (heap s) ce2 = Some B \<and> v2_of (heap s) ce2 = Some A \<longrightarrow>
            edges (mouseup m2 ((mouseup m s)\<lparr>currentEdge := Some ce2\<rparr>)) = edges (mouseup m s))
      \<and> ((\<forall>a b. length (edges_between s a b) \<le> 1) \<longrightarrow>
            (\<forall>a b. length (edges_between (mouseup m s) a b) \<le> 1)))"
proof (rule conjI)
  show "reachable mt s \<longrightarrow> (\<forall>a b. length (edges_between s a b) \<le> 1)"
    using reachable_well_formed [of mt s] by (simp add: well_formed_def)
next
  show "currentEdge s = Some ce \<and> v1_of (heap s) ce = Some A \<and> v2_of (heap s) ce = Some B \<longrightarrow>
        (edges_between s A B \<noteq> [] \<longrightarrow> edges (mouseup m s) = edges s)
      \<and> (edges_between s A B = [] \<longrightarrow>
            edges (mouseup m s) = edges s @ [ce] \<and> edges_between (mouseup m s) A B = [ce])
      \<and> length (edges_between (mouseup m s) A B) = max 1 (length (edges_between s A B))
      \<and> edges_between (mouseup m s) B A = edges_between (mouseup m s) A B
      \<and> (\<forall>a b. \<not> connects (heap s) a b ce \<longrightarrow>
            edges_between (mouseup m s) a b = edges_between s a b)
      \<and> (\<forall>ce2 m2. v1_of (heap s) ce2 = Some B \<and> v2_of (heap s) ce2 = Some A \<longrightarrow>
            edges (mouseup m2 ((mouseup m s)\<lparr>currentEdge := Some ce2\<rparr>)) = edges (mouseup m s))
      \<and> ((\<forall>a b. length (edges_between s a b) \<le> 1) \<longrightarrow>
            (\<forall>a b. length (edges_between (mouseup m s) a b) \<le> 1))"
  proof (rule impI, elim conjE)
    assume "currentEdge s = Some ce" "v1_of (heap s) ce = Some A" "v2_of (heap s) ce = Some B"
    then show "(edges_between s A B \<noteq> [] \<longrightarrow> edges (mouseup m s) = edges s)
      \<and> (edges_between s A B = [] \<longrightarrow>
            edges (mouseup m s) = edges s @ [ce] \<and> edges_between (mouseup m s) A B = [ce])
      \<and> length (edges_between (mouseup m s) A B) = max 1 (length (edges_between s A B))
      \<and> edges_between (mouseup m s) B A = edges_between (mouseup m s) A B
      \<and> (\<forall>a b. \<not> connects (heap s) a b ce \<longrightarrow>
            edges_between (mouseup m s) a b = edges_between s a b)
      \<and> (\<forall>ce2 m2. v1_of (heap s) ce2 = Some B \<and> v2_of (heap s) ce2 = Some A \<longrightarrow>
            edges (mouseup m2 ((mouseup m s)\<lparr>currentEdge := Some ce2\<rparr>)) = edges (mouseup m s))
      \<and> ((\<forall>a b. length (edges_between s a b) \<le> 1) \<longrightarrow>
            (\<forall>a b. length (edges_between (mouseup m s) a b) \<le> 1))"
      by (rule mouseup_commit_facts)
  qed
qed

text \<open>The two gestures of the scenario, through the handlers: an undirected edge from the
  first vertex to the second is committed; a directed one from the second to the first
  is dropped.\<close>

lemma first_drag_facts:
  "currentEdge first_drag = Some 3" "edges first_drag = []"
  "v1_of (heap first_drag) 3 = Some 0" "v2_of (heap first_drag) 3 = Some 1"
  "edges_between first_drag 0 1 = []"
  by (simp_all add: first_drag_def handler_defs edges_between_def)

lemma second_drag_facts:
  "currentEdge second_drag = Some 5" "edges second_drag = [3]"
  "v1_of (heap second_drag) 5 = Some 1" "v2_of (heap second_drag) 5 = Some 0"
  "edges_between second_drag 1 0 = [3]"
  by (simp_all add: second_drag_def first_drag_def handler_defs edges_between_def connects_def)

lemma second_drag_reachable: "reachable width12 second_drag"
  unfolding second_drag_def first_drag_def two_apart_def by (intro reachable.intros)

theorem commit_keeps_one_edge_witness:
  "edges first_drag = [] \<and> edges (mouseup (200, 50) first_drag) = [3]
   \<and> edges second_drag = [3] \<and> edges (mouseup (50, 50) second_drag) = [3]
   \<and> length (edges_between (mouseup (50, 50) second_drag) 0 1) = 1
   \<and> reachable width12 second_drag
   \<and> length (edges_between second_drag 0 1) \<le> 1"
  using commit_keeps_one_edge [of width12 first_drag 3 0 1 "(200, 50)"]
    commit_keeps_one_edge [of width12 second_drag 5 1 0 "(50, 50)"]
    second_drag_reachable
  by (simp add: first_drag_facts second_drag_facts del: One_nat_def)

section \<open>C7: snapping\<close>

lemma snap_axis_Nil: "snap_axis c [] = c"
  by (simp add: snap_axis_def)

lemma snap_axis_Cons:
  "snap_axis c (o' # os) = snap_axis (if \<bar>c - o'\<bar> < SNAP_MARGIN then o' else c) os"
  by (simp add: snap_axis_def)

lemma snap_axis_far:
  assumes "\<forall>o' \<in> set os. SNAP_MARGIN \<le> \<bar>c - o'\<bar>"
  shows "snap_axis c os = c"
  using assms by (induction os) (auto simp: snap_axis_Nil snap_axis_Cons)

text \<open>A round of the loop at the dragged vertex itself changes nothing; a round at another
  vertex is one step on each axis.\<close>

lemma snap_step_self:
  assumes "h v = Some (Vertex V)"
  shows "snap_step v v h = h"
proof -
  have "h(v \<mapsto> Vertex V) = h" using assms by auto
  then show ?thesis
    using assms by (simp add: snap_step_def Let_def SNAP_MARGIN_def)
qed

lemma snap_step_other:
  assumes "h v = Some (Vertex V)" and "h u = Some (Vertex W)" and "u \<noteq> v"
  shows "snap_step v u h =
     h(v \<mapsto> Vertex (V\<lparr>x := (if \<bar>x V - x W\<bar> < SNAP_MARGIN then x W else x V),
                        y := (if \<bar>y V - y W\<bar> < SNAP_MARGIN then y W else y V)\<rparr>))"
  using assms by (auto simp: snap_step_def Let_def)

lemma snap_loop_char:
  assumes "h v = Some (Vertex V)" and "\<forall>u \<in> set us. is_Vertex (h u)"
  shows "snap_loop v us h =
     h(v \<mapsto> Vertex (V\<lparr>x := snap_axis (x V) (map (x_of h) (filter (\<lambda>u. u \<noteq> v) us)),
                        y := snap_axis (y V) (map (y_of h) (filter (\<lambda>u. u \<noteq> v) us))\<rparr>))"
  using assms
proof (induction us arbitrary: h V)
  case Nil
  then show ?case by (auto simp: snap_axis_Nil)
next
  case (Cons u us)
  show ?case
  proof (cases "u = v")
    case True
    have "snap_loop v (u # us) h = snap_loop v us h"
      using True Cons.prems(1) by (simp add: snap_step_self)
    also have "\<dots> = h(v \<mapsto> Vertex (V\<lparr>x := snap_axis (x V) (map (x_of h) (filter (\<lambda>u. u \<noteq> v) us)),
                        y := snap_axis (y V) (map (y_of h) (filter (\<lambda>u. u \<noteq> v) us))\<rparr>))"
    proof -
      have "\<forall>w \<in> set us. is_Vertex (h w)" using Cons.prems(2) by simp
      with Cons.prems(1) show ?thesis by (rule Cons.IH [of h V])
    qed
    finally show ?thesis using True by simp
  next
    case False
    obtain W where W: "h u = Some (Vertex W)"
      using Cons.prems(2) by (auto simp: is_Vertex_def split: option.splits obj.splits)
    let ?V' = "V\<lparr>x := (if \<bar>x V - x W\<bar> < SNAP_MARGIN then x W else x V),
                   y := (if \<bar>y V - y W\<bar> < SNAP_MARGIN then y W else y V)\<rparr>"
    let ?h' = "h(v \<mapsto> Vertex ?V')"
    have st: "snap_step v u h = ?h'"
      using snap_step_other [OF Cons.prems(1) W False] .
    have a: "?h' v = Some (Vertex ?V')" by simp
    have b: "\<forall>w \<in> set us. is_Vertex (?h' w)"
      using Cons.prems(2) by (auto simp: is_Vertex_def)
    have xo: "map (x_of ?h') (filter (\<lambda>u. u \<noteq> v) us) = map (x_of h) (filter (\<lambda>u. u \<noteq> v) us)"
      by (rule map_cong) (auto simp: x_of_def)
    have yo: "map (y_of ?h') (filter (\<lambda>u. u \<noteq> v) us) = map (y_of h) (filter (\<lambda>u. u \<noteq> v) us)"
      by (rule map_cong) (auto simp: y_of_def)
    have "snap_loop v (u # us) h = snap_loop v us ?h'"
      by (simp add: st)
    also have "\<dots> = ?h'(v \<mapsto> Vertex (?V'\<lparr>
          x := snap_axis (x ?V') (map (x_of ?h') (filter (\<lambda>u. u \<noteq> v) us)),
          y := snap_axis (y ?V') (map (y_of ?h') (filter (\<lambda>u. u \<noteq> v) us))\<rparr>))"
      using a b by (rule Cons.IH [of ?h' ?V'])
    finally have fin: "snap_loop v (u # us) h =
        ?h'(v \<mapsto> Vertex (?V'\<lparr>
          x := snap_axis (x ?V') (map (x_of h) (filter (\<lambda>u. u \<noteq> v) us)),
          y := snap_axis (y ?V') (map (y_of h) (filter (\<lambda>u. u \<noteq> v) us))\<rparr>))"
      unfolding xo yo .
    have xu: "x_of h u = x W" "y_of h u = y W"
      using W by (simp_all add: x_of_def y_of_def)
    have flt: "filter (\<lambda>u. u \<noteq> v) (u # us) = u # filter (\<lambda>u. u \<noteq> v) us"
      using False by simp
    show ?thesis
      unfolding fin flt by (simp add: xu snap_axis_Cons)
  qed
qed

text \<open>
  C7: \<open>snap\<close> on the dragged vertex \<open>v\<close>, in a scene whose vertex collection holds vertex
  objects. Each axis is treated on its own: the new \<open>x\<close> is obtained from the old \<open>x\<close> and
  the \<open>x\<close> coordinates of the other vertices alone, going through them in the order of
  the collection and taking over a coordinate that differs by less than
  \<open>SNAP_MARGIN = 10\<close> from the dragged one as it is by then; the same for \<open>y\<close>. A
  coordinate with no other vertex within the tolerance is left as it is. Nothing else of
  the dragged vertex and no other object changes.
\<close>

theorem snap_per_axis:
  assumes "heap s v = Some (Vertex V)" and "\<forall>u \<in> set (vertices s). is_Vertex (heap s u)"
  shows "heap (snap v s) v = Some (Vertex (V\<lparr>
            x := snap_axis (x V) (map (x_of (heap s)) (filter (\<lambda>u. u \<noteq> v) (vertices s))),
            y := snap_axis (y V) (map (y_of (heap s)) (filter (\<lambda>u. u \<noteq> v) (vertices s)))\<rparr>))
    \<and> (\<forall>u. u \<noteq> v \<longrightarrow> heap (snap v s) u = heap s u)
    \<and> ((\<forall>u \<in> set (vertices s). u \<noteq> v \<longrightarrow> SNAP_MARGIN \<le> \<bar>x V - x_of (heap s) u\<bar>)
          \<longrightarrow> x_of (heap (snap v s)) v = x V)
    \<and> ((\<forall>u \<in> set (vertices s). u \<noteq> v \<longrightarrow> SNAP_MARGIN \<le> \<bar>y V - y_of (heap s) u\<bar>)
          \<longrightarrow> y_of (heap (snap v s)) v = y V)
    \<and> vertices (snap v s) = vertices s \<and> edges (snap v s) = edges s"
proof -
  have h: "heap (snap v s) = (heap s)(v \<mapsto> Vertex (V\<lparr>
            x := snap_axis (x V) (map (x_of (heap s)) (filter (\<lambda>u. u \<noteq> v) (vertices s))),
            y := snap_axis (y V) (map (y_of (heap s)) (filter (\<lambda>u. u \<noteq> v) (vertices s)))\<rparr>))"
    using snap_loop_char [OF assms] by (simp add: snap_def)
  have fx: "snap_axis (x V) (map (x_of (heap s)) (filter (\<lambda>u. u \<noteq> v) (vertices s))) = x V"
    if "\<forall>u \<in> set (vertices s). u \<noteq> v \<longrightarrow> SNAP_MARGIN \<le> \<bar>x V - x_of (heap s) u\<bar>"
    using that by (intro snap_axis_far) auto
  have fy: "snap_axis (y V) (map (y_of (heap s)) (filter (\<lambda>u. u \<noteq> v) (vertices s))) = y V"
    if "\<forall>u \<in> set (vertices s). u \<noteq> v \<longrightarrow> SNAP_MARGIN \<le> \<bar>y V - y_of (heap s) u\<bar>"
    using that by (intro snap_axis_far) auto
  show ?thesis
    using fx fy by (simp add: h x_of_def y_of_def) (simp add: snap_def)
qed

text \<open>The example of the claim: vertices at (100, 100) and (104, 100); the second is
  moved to (104, 250) and ends at (100, 250), by \<open>snap\<close> alone and through the
  mouse-move handler.\<close>

theorem snap_per_axis_witness:
  "x_of (heap (snap 1 (two_vertices\<lparr>heap := (heap two_vertices)(1 \<mapsto>
        Vertex \<lparr>x = 104, y = 250, radius = 30, mouseOffsetX = 0, mouseOffsetY = 0,
                label = str ''ab''\<rparr>)\<rparr>))) 1 = 100
   \<and> y_of (heap (snap 1 (two_vertices\<lparr>heap := (heap two_vertices)(1 \<mapsto>
        Vertex \<lparr>x = 104, y = 250, radius = 30, mouseOffsetX = 0, mouseOffsetY = 0,
                label = str ''ab''\<rparr>)\<rparr>))) 1 = 250
   \<and> x_of (heap (fst (mousemove width12 (104, 250) dragging))) 1 = 100
   \<and> y_of (heap (fst (mousemove width12 (104, 250) dragging))) 1 = 250"
  using snap_per_axis [of "two_vertices\<lparr>heap := (heap two_vertices)(1 \<mapsto>
        Vertex \<lparr>x = 104, y = 250, radius = 30, mouseOffsetX = 0, mouseOffsetY = 0,
                label = str ''ab''\<rparr>)\<rparr>" 1
        "\<lparr>x = 104, y = 250, radius = 30, mouseOffsetX = 0, mouseOffsetY = 0, label = str ''ab''\<rparr>"]
  by (simp add: two_vertices_def dragging_def vertex_100_def handler_defs snap_def snap_step_def
        SNAP_MARGIN_def setAnchorPoint_def x_of_def y_of_def snap_axis_def str_def)

section \<open>C5: the numeric formatter\<close>

text \<open>The two replacements of \<open>fixed\<close>, said with list functions.\<close>

lemma replace_zeros_end_eq: "replace_zeros_end s = rev (dropWhile (\<lambda>c. c = 48) (rev s))"
proof (induction s)
  case Nil
  then show ?case by simp
next
  case (Cons c cs)
  show ?case
  proof (cases "list_all (\<lambda>d. d = 48) cs")
    case True
    then have "\<forall>d \<in> set (rev cs). d = 48" by (simp add: list_all_iff)
    then have "dropWhile (\<lambda>c. c = 48) (rev cs @ [c]) = dropWhile (\<lambda>c. c = 48) [c]"
      by (simp add: dropWhile_append)
    moreover have "replace_zeros_end cs = []"
      using True Cons.IH by (simp add: list_all_iff)
    ultimately show ?thesis using True by simp
  next
    case False
    then have "\<not> (\<forall>d \<in> set (rev cs). d = 48)" by (simp add: list_all_iff)
    then have "dropWhile (\<lambda>c. c = 48) (rev cs @ [c]) = dropWhile (\<lambda>c. c = 48) (rev cs) @ [c]"
      by (simp add: dropWhile_append)
    then show ?thesis using False Cons.IH by simp
  qed
qed

lemma replace_dot_end_eq:
  "replace_dot_end s = (if s \<noteq> [] \<and> last s = 46 then butlast s else s)"
  by (induction s) auto

lemma digits_of_isDigit: "list_all isDigit (digits_of n)"
proof (induction n rule: digits_of.induct)
  case (1 n)
  show ?case
  proof (cases "n < 10")
    case True
    then show ?thesis by (subst digits_of.simps) (simp add: isDigit_def)
  next
    case False
    have "n mod 10 < 10" by simp
    then have "isDigit (48 + n mod 10)" unfolding isDigit_def by linarith
    then show ?thesis
      using False "1.IH" by (subst digits_of.simps) simp
  qed
qed

lemma toFixed_int_isDigit: "list_all isDigit (toFixed_int a f)"
  using digits_of_isDigit [of "nat \<lfloor>a * 10 ^ f + 1 / 2\<rfloor>"]
  by (auto simp: toFixed_int_def Let_def isDigit_def list_all_iff)

lemma toFixed_int_length: "f < length (toFixed_int a f)"
  by (simp add: toFixed_int_def Let_def)

text \<open>On a rendering with a point followed by digits, the two replacements strip the
  trailing zeros of the fraction, and the point when nothing is left of it; what stands
  before the point is not touched, whatever it ends with.\<close>

lemma strip_point:
  assumes "list_all isDigit b"
  shows "replace_dot_end (replace_zeros_end (p @ [46] @ b)) = strip_fraction p b"
proof (cases "\<forall>c \<in> set b. c = 48")
  case True
  then have "dropWhile (\<lambda>c. c = 48) (rev b) = []" by simp
  moreover have "dropWhile (\<lambda>c. c = 48) (rev b @ 46 # rev p) = 46 # rev p"
    using True by (simp add: dropWhile_append)
  ultimately show ?thesis
    by (simp add: replace_zeros_end_eq replace_dot_end_eq strip_fraction_def)
next
  case False
  let ?z = "dropWhile (\<lambda>c. c = 48) (rev b)"
  have nz: "?z \<noteq> []" using False by simp
  have dw: "dropWhile (\<lambda>c. c = 48) (rev b @ 46 # rev p) = ?z @ 46 # rev p"
    using False by (simp add: dropWhile_append)
  have "hd ?z \<in> set ?z" using nz by simp
  then have "hd ?z \<in> set b" using set_dropWhileD by fastforce
  then have "isDigit (hd ?z)" using assms by (simp add: list_all_iff)
  then have "hd ?z \<noteq> 46" by (auto simp: isDigit_def)
  then have l: "last (rev ?z) \<noteq> 46" by (simp add: last_rev)
  have "replace_zeros_end (p @ [46] @ b) = p @ 46 # rev ?z"
    by (simp add: replace_zeros_end_eq dw)
  moreover have "replace_dot_end (p @ 46 # rev ?z) = p @ 46 # rev ?z"
    using nz l by (auto simp: replace_dot_end_eq)
  ultimately show ?thesis
    using nz by (simp add: strip_fraction_def)
qed

text \<open>
  C5 says that \<open>fixed\<close> renders every number with every digit count in fixed point and
  strips only the trailing zeros of the fraction and a trailing point. That holds for
  the digit counts from 1 to 100 and the numbers below \<open>10^21\<close> in absolute value (the
  source calls \<open>fixed\<close> with 2, 3 and 5 digits): \<open>toFixed\<close> then gives the sign, the
  integer digits, a point and exactly \<open>d\<close> fractional digits, and \<open>fixed\<close> gives the sign
  and the integer digits unchanged, followed by the point and the fraction without its
  trailing zeros when a fractional digit is left. With 0 digits there is no point, and
  the first replacement eats the trailing zeros of the integer part.
\<close>

theorem fixed_strips_fraction:
  assumes "1 \<le> d" and "d \<le> 100" and "\<bar>n\<bar> < 10 ^ 21"
  shows "toFixed toString n d = Inr (sign_of n @ int_digits \<bar>n\<bar> d @ [46] @ frac_digits \<bar>n\<bar> d)
    \<and> length (frac_digits \<bar>n\<bar> d) = d
    \<and> list_all isDigit (frac_digits \<bar>n\<bar> d)
    \<and> int_digits \<bar>n\<bar> d \<noteq> [] \<and> list_all isDigit (int_digits \<bar>n\<bar> d)
    \<and> fixed toString n d = Inr (strip_fraction (sign_of n @ int_digits \<bar>n\<bar> d) (frac_digits \<bar>n\<bar> d))"
proof -
  let ?m = "toFixed_int \<bar>n\<bar> d"
  have len: "d < length ?m" by (rule toFixed_int_length)
  have dig: "list_all isDigit ?m" by (rule toFixed_int_isDigit)
  have tf: "toFixed toString n d = Inr (sign_of n @ int_digits \<bar>n\<bar> d @ [46] @ frac_digits \<bar>n\<bar> d)"
    using assms by (simp add: toFixed_def Let_def sign_of_def int_digits_def frac_digits_def)
  have fl: "length (frac_digits \<bar>n\<bar> d) = d"
    using len by (simp add: frac_digits_def Let_def)
  have fd: "list_all isDigit (frac_digits \<bar>n\<bar> d)"
    using dig by (auto simp: frac_digits_def Let_def list_all_iff dest: in_set_dropD)
  have id: "list_all isDigit (int_digits \<bar>n\<bar> d)"
    using dig by (auto simp: int_digits_def Let_def list_all_iff dest: in_set_takeD)
  have ine: "int_digits \<bar>n\<bar> d \<noteq> []"
    using len by (auto simp: int_digits_def Let_def)
  have "fixed toString n d = Inr (replace_dot_end (replace_zeros_end
            ((sign_of n @ int_digits \<bar>n\<bar> d) @ [46] @ frac_digits \<bar>n\<bar> d)))"
    by (simp add: fixed_def tf)
  then have fx: "fixed toString n d
      = Inr (strip_fraction (sign_of n @ int_digits \<bar>n\<bar> d) (frac_digits \<bar>n\<bar> d))"
    by (simp only: strip_point [OF fd])
  show ?thesis using tf fl fd id ine fx by simp
qed

text \<open>The examples of the claim: 100 with two digits is \<open>100\<close>, 2.50 is \<open>2.5\<close>.\<close>

theorem fixed_strips_fraction_witness:
  "fixed (\<lambda>a. []) 100 2 = Inr (str ''100'') \<and> fixed (\<lambda>a. []) (5 / 2) 2 = Inr (str ''2.5'')
   \<and> toFixed (\<lambda>a. []) (5 / 2) 2 = Inr (str ''2.50'')
   \<and> fixed (\<lambda>a. []) (- 1005 / 100) 3 = Inr (str ''-10.05'')"
  using fixed_strips_fraction [of 2 100 "\<lambda>a. []"] fixed_strips_fraction [of 2 "5 / 2" "\<lambda>a. []"]
    fixed_strips_fraction [of 3 "- 1005 / 100" "\<lambda>a. []"]
  by (simp add: toFixed_int_def Let_def digits_of.simps str_def strip_fraction_def sign_of_def
        int_digits_def frac_digits_def)

text \<open>With 0 digits, 100 is rendered \<open>100\<close> by \<open>toFixed\<close> and \<open>1\<close> by \<open>fixed\<close>.\<close>

theorem fixed_zero_digits_counterexample:
  "toFixed (\<lambda>a. []) 100 0 = Inr (str ''100'') \<and> fixed (\<lambda>a. []) 100 0 = Inr (str ''1'')"
  by (simp add: toFixed_def fixed_def toFixed_int_def Let_def digits_of.simps str_def)

section \<open>C3: the export to markup and the scene\<close>

lemma draw_edges_None:
  "draw_edges c h rs = None \<longleftrightarrow> list_all (\<lambda>r. edge_draw c h r = None) rs"
  by (induction rs) (auto split: option.splits)

lemma draw_edges_cong:
  assumes "\<And>r. edge_draw c h r = edge_draw c h' r"
  shows "draw_edges c h rs = draw_edges c h' rs"
  by (induction rs) (auto simp: assms split: option.splits)

lemma edge_draw_draw_vertices: "edge_draw c (draw_vertices mt rs h) r = edge_draw c h r"
  by (rule edge_draw_forget) (rule draw_vertices_forget)

lemma drawWith_error:
  "snd (drawWith mt LaTeXDrawer s) = None \<longleftrightarrow> draws_on_markup s"
proof -
  have e: "draw_edges LaTeXDrawer (draw_vertices mt (vertices s) (heap s)) (edges s)
      = draw_edges LaTeXDrawer (heap s) (edges s)"
    by (rule draw_edges_cong) (rule edge_draw_draw_vertices)
  have a: "list_all (\<lambda>r. edge_draw LaTeXDrawer (heap s) r = None) (edges s)
      \<longleftrightarrow> draw_edges LaTeXDrawer (heap s) (edges s) = None"
    by (simp add: draw_edges_None)
  show ?thesis
    unfolding draws_on_markup_def list_all_append a
    by (cases "draw_edges LaTeXDrawer (heap s) (edges s)"; cases "currentEdge s")
       (simp_all add: drawWith_def Let_def e edge_draw_draw_vertices)
qed

lemma edge_draw_Canvas2D: "edge_draw Canvas2D h r = None"
  by (simp add: edge_draw_def drawText_def split: option.splits obj.splits)

lemma draw_edges_Canvas2D: "draw_edges Canvas2D h rs = None"
  by (induction rs) (simp_all add: edge_draw_Canvas2D)

lemma drawWith_Canvas2D: "snd (drawWith mt Canvas2D s) = None"
  by (simp add: drawWith_def Let_def draw_edges_Canvas2D edge_draw_Canvas2D
      split: option.splits)

lemma edge_draw_error: "edge_draw c h r = None \<or> edge_draw c h r = Some ReferenceError"
  by (simp add: edge_draw_def drawText_def advancedFillText_def
      split: option.splits obj.splits surface.splits)

lemma draw_edges_error: "draw_edges c h rs = None \<or> draw_edges c h rs = Some ReferenceError"
proof (induction rs)
  case Nil
  show ?case by simp
next
  case (Cons r rs)
  from edge_draw_error [of c h r] Cons show ?case by auto
qed

lemma drawWith_raises: "snd (drawWith mt c s) = None \<or> snd (drawWith mt c s) = Some ReferenceError"
proof -
  let ?h = "draw_vertices mt (vertices s) (heap s)"
  from draw_edges_error [of c ?h "edges s"] show ?thesis
  proof
    assume n: "draw_edges c ?h (edges s) = None"
    show ?thesis
    proof (cases "currentEdge s")
      case None
      with n show ?thesis by (simp add: drawWith_def Let_def)
    next
      case (Some r)
      with n edge_draw_error [of c ?h r] show ?thesis by (auto simp: drawWith_def Let_def)
    qed
  next
    assume "draw_edges c ?h (edges s) = Some ReferenceError"
    then show ?thesis by (simp add: drawWith_def Let_def)
  qed
qed

lemma labelled_edge_raises:
  assumes e: "e \<in> set (edges s)" and k: "is_Edge (heap s e)"
    and t: "label_at (heap s) e = Some t" and nb: "remove1 32 (makeSubscripts t) \<noteq> []"
  shows "\<not> draws_on_markup s"
proof -
  have "edge_draw LaTeXDrawer (heap s) e = Some ReferenceError"
    using k t nb
    by (auto simp: edge_draw_def drawText_def advancedFillText_def is_Edge_def label_at_def
        text_of_def split: option.splits obj.splits)
  with e show ?thesis
    by (auto simp: draws_on_markup_def list_all_iff)
qed

text \<open>
  C3 says that the export to markup leaves the vertex collection, the edge collection,
  their order and the selection as they were on every scene, and that the selection is
  restored even when a draw call raises. On every scene, whether a draw call raises or
  not, the vertex collection, the edge collection, their order and the edge under
  construction are as before, and so is every object but for the radii, which the draw
  pass derives again from the labels; on a scene that a redraw leaves as it is, and so on
  every reachable scene, nothing but the selection can differ. The selection is restored
  exactly when no draw call raises. The source assigns \<open>selectedObject = old\<close> after
  \<open>drawWith\<close>, with nothing that would run the assignment when \<open>drawWith\<close> raises, and a
  draw call does raise: \<open>advancedFillText\<close> reads \<open>angleOrNull\<close> where its parameter is
  \<open>angle\<close>. Every edge of the collection whose label is not blank therefore makes the
  export raise a \<open>ReferenceError\<close>, and the selection is left \<open>null\<close>. The same draw pass
  on the canvas raises nothing.
\<close>

theorem saveAsLaTeX_loses_selection:
  "vertices (fst (saveAsLaTeX mt s)) = vertices s
   \<and> edges (fst (saveAsLaTeX mt s)) = edges s
   \<and> currentEdge (fst (saveAsLaTeX mt s)) = currentEdge s
   \<and> (\<forall>r. map_option forget_radius (heap (fst (saveAsLaTeX mt s)) r)
           = map_option forget_radius (heap s r))
   \<and> (reachable mt s \<or> heap (draw mt s) = heap s \<longrightarrow>
        fst (saveAsLaTeX mt s) = (if draws_on_markup s then s else s\<lparr>selectedObject := None\<rparr>))
   \<and> snd (saveAsLaTeX mt s) = (if draws_on_markup s then None else Some ReferenceError)
   \<and> selectedObject (fst (saveAsLaTeX mt s)) = (if draws_on_markup s then selectedObject s else None)
   \<and> (e \<in> set (edges s) \<and> is_Edge (heap s e) \<and> label_at (heap s) e = Some t
        \<and> remove1 32 (makeSubscripts t) \<noteq> [] \<longrightarrow> \<not> draws_on_markup s)
   \<and> snd (drawWith mt Canvas2D (s\<lparr>selectedObject := None\<rparr>)) = None"
proof -
  let ?s1 = "s\<lparr>selectedObject := None\<rparr>"
  obtain s2 err where d: "drawWith mt LaTeXDrawer ?s1 = (s2, err)"
    by (cases "drawWith mt LaTeXDrawer ?s1")
  have s2: "s2 = ?s1\<lparr>heap := draw_vertices mt (vertices s) (heap s)\<rparr>"
    using drawWith_state [of mt LaTeXDrawer ?s1] d by simp
  have err: "err = None \<longleftrightarrow> draws_on_markup s"
    using drawWith_error [of mt ?s1] d by (simp add: draws_on_markup_def)
  have err': "err = None \<or> err = Some ReferenceError"
    using drawWith_raises [of mt LaTeXDrawer ?s1] d by simp
  have sv: "saveAsLaTeX mt s =
      (case err of Some e \<Rightarrow> (s2, Some e) | None \<Rightarrow> (s2\<lparr>selectedObject := selectedObject s\<rparr>, None))"
    by (simp add: saveAsLaTeX_def Let_def d split: option.splits)
  have fx: "reachable mt s \<or> heap (draw mt s) = heap s \<longrightarrow> draw_vertices mt (vertices s) (heap s) = heap s"
    using reachable_draw_fixed [of mt s] by (auto simp: draw_fields)
  have lb: "e \<in> set (edges s) \<and> is_Edge (heap s e) \<and> label_at (heap s) e = Some t
        \<and> remove1 32 (makeSubscripts t) \<noteq> [] \<longrightarrow> \<not> draws_on_markup s"
    using labelled_edge_raises [of e s t] by blast
  have cv: "snd (drawWith mt Canvas2D ?s1) = None" by (rule drawWith_Canvas2D)
  have main: "vertices (fst (saveAsLaTeX mt s)) = vertices s
   \<and> edges (fst (saveAsLaTeX mt s)) = edges s
   \<and> currentEdge (fst (saveAsLaTeX mt s)) = currentEdge s
   \<and> (\<forall>r. map_option forget_radius (heap (fst (saveAsLaTeX mt s)) r)
           = map_option forget_radius (heap s r))
   \<and> (reachable mt s \<or> heap (draw mt s) = heap s \<longrightarrow>
        fst (saveAsLaTeX mt s) = (if draws_on_markup s then s else s\<lparr>selectedObject := None\<rparr>))
   \<and> snd (saveAsLaTeX mt s) = (if draws_on_markup s then None else Some ReferenceError)
   \<and> selectedObject (fst (saveAsLaTeX mt s)) = (if draws_on_markup s then selectedObject s else None)"
    using err err' fx by (cases err) (auto simp: sv s2 draw_vertices_forget)
  from main lb cv show ?thesis by blast
qed

lemma edge_drawn_reachable: "reachable width12 edge_drawn"
  unfolding edge_drawn_def first_drag_def two_apart_def by (intro reachable.intros)

lemma vertex_selected_reachable: "reachable width12 vertex_selected"
  unfolding vertex_selected_def edge_labelled_def edge_drawn_def first_drag_def two_apart_def
  by (intro reachable.intros)

lemmas scene_defs =
  vertex_selected_def edge_labelled_def edge_drawn_def first_drag_def handler_defs
  Edge_contains_def EDGE_MARGIN_def keypress_def text_of_def set_text_def fromCharCode_def
  advancedFillText_def match_here_def isDigit_def upt_rec

text \<open>Two reachable scenes with the first vertex selected: with an unlabelled edge the
  export returns and the state is as before; with the edge labelled \<open>a\<close> the export raises
  and the state is as before but for the selection, which is \<open>null\<close>.\<close>

theorem saveAsLaTeX_loses_selection_witness:
  "reachable width12 edge_drawn
   \<and> selectedObject edge_drawn = Some 0 \<and> edges edge_drawn = [3]
   \<and> label_at (heap edge_drawn) 3 = Some []
   \<and> saveAsLaTeX width12 edge_drawn = (edge_drawn, None)
   \<and> reachable width12 vertex_selected
   \<and> selectedObject vertex_selected = Some 0 \<and> edges vertex_selected = [3]
   \<and> label_at (heap vertex_selected) 3 = Some (str ''a'')
   \<and> saveAsLaTeX width12 vertex_selected
       = (vertex_selected\<lparr>selectedObject := None\<rparr>, Some ReferenceError)"
proof -
  have a: "draws_on_markup edge_drawn" "selectedObject edge_drawn = Some 0"
    "edges edge_drawn = [3]" "label_at (heap edge_drawn) 3 = Some []"
    by (simp_all add: draws_on_markup_def scene_defs label_at_def)
  have b: "selectedObject vertex_selected = Some 0" "edges vertex_selected = [3]"
    "is_Edge (heap vertex_selected 3)" "label_at (heap vertex_selected) 3 = Some (str ''a'')"
    by (simp_all add: scene_defs label_at_def str_def is_Edge_def)
  have c: "remove1 32 (makeSubscripts (str ''a'')) \<noteq> []"
    by (simp add: makeSubscripts_def match_g_def str_def match_here_def isDigit_def)
  show ?thesis
    using saveAsLaTeX_loses_selection [of width12 edge_drawn]
      saveAsLaTeX_loses_selection [of width12 vertex_selected 3 "str ''a''"]
      edge_drawn_reachable vertex_selected_reachable a b c
    by (simp add: prod_eq_iff)
qed

text \<open>The second scene once more, evaluated from the definitions of the handlers alone:
  the draw call of the labelled edge raises the \<open>ReferenceError\<close> of \<open>advancedFillText\<close>,
  the export ends there, and the selection is not the one from before the export.\<close>

theorem saveAsLaTeX_selection_counterexample:
  "reachable width12 vertex_selected
   \<and> selectedObject vertex_selected = Some 0
   \<and> label_at (heap vertex_selected) 3 = Some (str ''a'')
   \<and> snd (saveAsLaTeX width12 vertex_selected) = Some ReferenceError
   \<and> selectedObject (fst (saveAsLaTeX width12 vertex_selected)) = None
   \<and> selectedObject (fst (saveAsLaTeX width12 vertex_selected)) \<noteq> selectedObject vertex_selected"
  using vertex_selected_reachable
  by (simp add: scene_defs saveAsLaTeX_def label_at_def str_def)

section \<open>C6: the subscript formatters\<close>

lemmas subscript_defs =
  makeSubscripts_def makeLaTeXSubscripts_def match_g_def str_def match_here_def isDigit_def
  fromCharCode_def subscript_of_def Let_def upt_rec

text \<open>The example of the claim: on \<open>x_12_y\<close> both formatters of the source do what the
  one-pass formatter of the specification does.\<close>

lemma subscripts_example:
  "makeSubscripts (str ''x_12_y'') = [120, 8321, 8322, 121]
   \<and> applySubscripts OnScreen (str ''x_12_y'') = [120, 8321, 8322, 121]
   \<and> makeLaTeXSubscripts (str ''x_12_y'') = str ''x_{12}y''
   \<and> applySubscripts Markup (str ''x_12_y'') = str ''x_{12}y''"
  by (simp add: subscript_defs)

text \<open>
  C6 says that each non-overlapping occurrence of underscore, digits, underscore is
  replaced and all other text is left unchanged. The source finds these occurrences
  with \<open>match\<close>, but then replaces, for one found text after the other, every occurrence
  of that text in the string as it is by then. On \<open>_2_x_1_2_\<close> the occurrences are \<open>_2_\<close>
  at the start and \<open>_1_\<close>; the first round also replaces the \<open>_2_\<close> that begins with the
  closing underscore of \<open>_1_\<close>. On screen \<open>_1_\<close> is then no longer there and stays
  unformatted; in markup it is found again in front of the new \<open>_{2}\<close>. Both results
  differ from the one-pass formatter, which gives subscript 2, \<open>x\<close>, subscript 1, \<open>2_\<close>.
\<close>

theorem subscripts_diverge:
  "makeSubscripts (str ''_2_x_1_2_'') = [8322, 120, 95, 49, 8322]
   \<and> applySubscripts OnScreen (str ''_2_x_1_2_'') = [8322, 120, 8321, 50, 95]
   \<and> makeLaTeXSubscripts (str ''_2_x_1_2_'') = str ''_{2}x_{1}{2}''
   \<and> applySubscripts Markup (str ''_2_x_1_2_'') = str ''_{2}x_{1}2_''"
  by (simp add: subscript_defs)

section \<open>C9: the kind of the edge during a connect gesture\<close>

text \<open>
  C9 says that the kind of the edge is fixed when the gesture starts. The press decides
  by the flags \<open>shift\<close> and \<open>ctrl\<close>, \<open>shift\<close> first; every mouse move builds the edge anew
  and decides by \<open>lastKey\<close>. With Shift pressed and then Control, both held, the press on
  a vertex starts an undirected pending edge; the next move makes it a directed one,
  over empty canvas and over the second vertex alike, and the release commits a directed
  edge.
\<close>

theorem kind_changes_mid_gesture:
  "shift pressed \<and> ctrl pressed \<and> mouseDown pressed
   \<and> currentKind pressed = Some Undirected
   \<and> snd (mousemove width12 (120, 120) pressed) = None
   \<and> currentKind (fst (mousemove width12 (120, 120) pressed)) = Some Directed
   \<and> currentKind (fst (mousemove width12 (200, 50) pressed)) = Some Directed
   \<and> edges pressed = []
   \<and> map (\<lambda>r. case heap (fst (mousemove width12 (200, 50) pressed)) r of
                   None \<Rightarrow> None
                 | Some ob \<Rightarrow> kind_of ob)
        (edges (mouseup (200, 50) (fst (mousemove width12 (200, 50) pressed))))
       = [Some Directed]"
  by (simp add: pressed_def handler_defs currentKind_def kind_of_def)

end
